theory Spec2Isabelle
  imports Main "HOL-Library.Sublist" "HOL-Library.AList"
begin

section \<open>Python strings and dictionaries\<close>

text \<open>
  Strings are \<open>char list\<close>. The source uses \<^verbatim>\<open>str.lower\<close>, the substring test
  \<^verbatim>\<open>k in s\<close>, \<^verbatim>\<open>str.startswith\<close>, \<^verbatim>\<open>str.split\<close>, \<^verbatim>\<open>str.replace\<close> and \<^verbatim>\<open>str.strip\<close>.
  Case folding and whitespace are modelled on ASCII; the substring test is
  \<open>sublist\<close> (contiguous) and \<^verbatim>\<open>startswith\<close> is \<open>prefix\<close>.
\<close>

definition lower_char :: "char \<Rightarrow> char" where
  "lower_char c =
     (case map_of (zip ''ABCDEFGHIJKLMNOPQRSTUVWXYZ'' ''abcdefghijklmnopqrstuvwxyz'') c of
        None \<Rightarrow> c
      | Some l \<Rightarrow> l)"

definition lower :: "string \<Rightarrow> string" where
  "lower s = map lower_char s"

definition str_in :: "string \<Rightarrow> string \<Rightarrow> bool" where
  \<comment> \<open>\<^verbatim>\<open>k in s\<close>\<close>
  "str_in k s = sublist k s"

definition startswith :: "string \<Rightarrow> string \<Rightarrow> bool" where
  "startswith s p = prefix p s"

fun split_acc :: "char \<Rightarrow> string \<Rightarrow> string \<Rightarrow> string list" where
  "split_acc sep cur [] = [cur]"
| "split_acc sep cur (c # cs) =
     (if c = sep then cur # split_acc sep [] cs else split_acc sep (cur @ [c]) cs)"

definition split :: "string \<Rightarrow> char \<Rightarrow> string list" where
  \<comment> \<open>\<^verbatim>\<open>s.split(sep)\<close> for a one-character separator: never the empty list.\<close>
  "split s sep = split_acc sep [] s"

definition replace_char :: "string \<Rightarrow> char \<Rightarrow> char \<Rightarrow> string" where
  \<comment> \<open>\<^verbatim>\<open>s.replace(a, b)\<close> for one-character \<open>a\<close> and \<open>b\<close>\<close>
  "replace_char s a b = map (\<lambda>c. if c = a then b else c) s"

definition is_space :: "char \<Rightarrow> bool" where
  \<comment> \<open>the characters below U+0100 that \<^verbatim>\<open>str.strip\<close> removes (those for which \<^verbatim>\<open>str.isspace\<close>
      holds): tab, newline, VT, FF, CR, FS, GS, RS, US, space, NEL (U+0085) and the
      no-break space (U+00A0); a character here is a code point below U+0100\<close>
  "is_space c = (c \<in> set [CHR 0x09, CHR 0x0A, CHR 0x0B, CHR 0x0C, CHR 0x0D,
                            CHR 0x1C, CHR 0x1D, CHR 0x1E, CHR 0x1F, CHR '' '',
                            CHR 0x85, CHR 0xA0])"

definition strip :: "string \<Rightarrow> string" where
  "strip s = rev (dropWhile is_space (rev (dropWhile is_space s)))"

text \<open>
  A \<^verbatim>\<open>dict\<close> with string keys is an association list in insertion order;
  \<^verbatim>\<open>d[k] = v\<close> is \<open>AList.update\<close> (an existing key keeps its place, a new key goes
  last), \<^verbatim>\<open>d.get(k, default)\<close> is \<open>dict_get\<close>, and a dict is falsy when it is \<open>[]\<close>.
\<close>

type_synonym 'v pydict = "(string \<times> 'v) list"

definition dict_get :: "'v pydict \<Rightarrow> string \<Rightarrow> 'v \<Rightarrow> 'v" where
  "dict_get d k dflt = (case map_of d k of None \<Rightarrow> dflt | Some v \<Rightarrow> v)"

definition dict_keys :: "'v pydict \<Rightarrow> string list" where
  "dict_keys d = map fst d"

section \<open>Items and their schemas\<close>

text \<open>
  The repository defines the classes \<^verbatim>\<open>Weapon\<close> and \<^verbatim>\<open>Equipment\<close> twice: in
  \<^verbatim>\<open>wiki_scraper.py\<close> (the classes the scraper instantiates) and in \<^verbatim>\<open>models.py\<close>.
  Each class carries its own \<^verbatim>\<open>FIELDS\<close> list.
\<close>

datatype py_class = Scraper_Weapon | Scraper_Equipment | Models_Weapon | Models_Equipment

datatype archetype = Weapon | Equipment

fun archetype_of :: "py_class \<Rightarrow> archetype" where
  "archetype_of Scraper_Weapon = Weapon"
| "archetype_of Models_Weapon = Weapon"
| "archetype_of Scraper_Equipment = Equipment"
| "archetype_of Models_Equipment = Equipment"

fun FIELDS :: "py_class \<Rightarrow> string list" where
  "FIELDS Scraper_Weapon =
     [''Name'', ''Type'', ''Damage'', ''Delay'', ''Classes'', ''Races'',
      ''Skill'', ''Effect'', ''WT'', ''Size'', ''Magic Item'',
      ''Lore Item'', ''No Drop'', ''30d Avg'', ''90d Avg'', ''All Time Avg'']"
| "FIELDS Scraper_Equipment =
     [''Name'', ''Type'', ''AC'', ''Stats'', ''Classes'', ''Races'',
      ''Effect'', ''WT'', ''Size'', ''Magic Item'', ''Lore Item'',
      ''No Drop'', ''30d Avg'', ''90d Avg'', ''All Time Avg'']"
| "FIELDS Models_Weapon =
     [''Name'', ''Type'', ''Damage'', ''Delay'', ''Stats'', ''Classes'', ''Races'',
      ''Effect'', ''WT'', ''Size'', ''Slot'', ''Magic Item'', ''Lore Item'',
      ''No Drop'', ''30d Avg'', ''90d Avg'', ''All Time Avg'']"
| "FIELDS Models_Equipment =
     [''Name'', ''Type'', ''Slot'', ''AC'', ''Stats'', ''Classes'', ''Races'',
      ''Effect'', ''WT'', ''Size'', ''Magic Item'', ''Lore Item'',
      ''No Drop'', ''30d Avg'', ''90d Avg'', ''All Time Avg'']"

record item =
  name :: string
  attributes :: "string pydict"
  cls :: py_class

definition to_dict :: "item \<Rightarrow> string pydict" where
  \<comment> \<open>\<^verbatim>\<open>{"Name": self.name, **self.attributes}\<close>: an attribute called Name overrides the name.\<close>
  "to_dict it = fold (\<lambda>(k, v) d. AList.update k v d) (attributes it) [(''Name'', name it)]"

definition isinstance_Weapon :: "item \<Rightarrow> bool" where
  \<comment> \<open>\<^verbatim>\<open>isinstance(item, Weapon)\<close> inside \<^verbatim>\<open>wiki_scraper.py\<close>\<close>
  "isinstance_Weapon it = (cls it = Scraper_Weapon)"

section \<open>Category tables (class ItemCategories)\<close>

definition WEAPONS :: "string pydict" where
  "WEAPONS =
     [(''1h'', ''1H_Weapons''), (''2h'', ''2H_Weapons''), (''piercing'', ''Piercing''),
      (''blunt'', ''Blunt''), (''slashing'', ''Slashing''), (''bow'', ''Bows''),
      (''throwing'', ''Throwing'')]"

definition EQUIPMENT :: "string pydict" where
  "EQUIPMENT =
     [(''arms'', ''Arms''), (''back'', ''Back''), (''chest'', ''Chest''), (''ear'', ''Ears''),
      (''face'', ''Face''), (''feet'', ''Feet''), (''fingers'', ''Fingers''),
      (''hands'', ''Hands''), (''head'', ''Head''), (''legs'', ''Legs''), (''neck'', ''Neck''),
      (''shield'', ''Shields''), (''shoulders'', ''Shoulders''), (''waist'', ''Waist''),
      (''wrist'', ''Wrist'')]"

section \<open>ItemScraper: classification and destination paths\<close>

definition weapon_types :: "string list" where
  "weapon_types = [''1h'', ''2h'', ''bow'', ''throwing'', ''piercing'', ''blunt'', ''slashing'']"

definition determine_item_type :: "string pydict \<Rightarrow> archetype" where
  "determine_item_type item_data =
     (if item_data = [] then Equipment
      else let item_type = lower (dict_get item_data ''Type'' '''')
           in if list_ex (\<lambda>t. str_in t item_type) weapon_types then Weapon else Equipment)"

text \<open>
  A path is the list of its components; \<open>output_dir\<close> is the scraper's output directory.
  \<^verbatim>\<open>next((v for k, v in WEAPONS.items() if k in type_key), "misc")\<close> takes the value of
  the first entry, in the table's order, whose key occurs in \<open>type_key\<close>.
\<close>

type_synonym path = "string list"

fun first_match :: "string pydict \<Rightarrow> string \<Rightarrow> string \<Rightarrow> string" where
  "first_match [] type_key dflt = dflt"
| "first_match ((k, v) # kvs) type_key dflt =
     (if str_in k type_key then v else first_match kvs type_key dflt)"

definition get_category_path :: "path \<Rightarrow> item \<Rightarrow> path" where
  "get_category_path output_dir it =
     (if isinstance_Weapon it then
        let base_dir = output_dir @ [''weapons''];
            type_key = lower (dict_get (attributes it) ''Type'' '''');
            filename = first_match WEAPONS type_key ''misc''
        in base_dir @ [filename @ ''.csv'']
      else
        let base_dir = output_dir @ [''equipment''];
            slot = lower (dict_get (attributes it) ''Slot'' '''');
            filename = dict_get EQUIPMENT slot ''misc''
        in base_dir @ [filename @ ''.csv''])"

definition classify :: "string \<Rightarrow> string pydict \<Rightarrow> item" where
  \<comment> \<open>The construction in \<^verbatim>\<open>scrape_item_page\<close>: the class is chosen by \<open>determine_item_type\<close>.\<close>
  "classify nm item_data =
     \<lparr>name = nm, attributes = item_data,
      cls = (if determine_item_type item_data = Weapon then Scraper_Weapon
             else Scraper_Equipment)\<rparr>"

section \<open>Exceptions, CSV rows and the file system\<close>

datatype py_error = ValueError | IndexError | RequestException

text \<open>
  A CSV file is the list of its rows, a row the list of its field values; the file system
  maps a path to the rows of the file there. \<^verbatim>\<open>csv.DictWriter(f, fieldnames=fields)\<close> is
  built with the defaults \<^verbatim>\<open>restval=''\<close> and \<^verbatim>\<open>extrasaction='raise'\<close>: \<^verbatim>\<open>writerow\<close> raises
  \<^verbatim>\<open>ValueError\<close> when the row dictionary has a key outside \<open>fieldnames\<close>, and otherwise
  writes, for each field name in order, the dictionary's value or the empty string.
  Failures of the operating system (a missing directory, a full disk) are not modelled.
\<close>

type_synonym csv_row = "string list"
type_synonym files = "path \<rightharpoonup> csv_row list"

definition dict_to_list :: "string list \<Rightarrow> string pydict \<Rightarrow> py_error + csv_row" where
  "dict_to_list fieldnames rowdict =
     (if list_ex (\<lambda>k. k \<notin> set fieldnames) (dict_keys rowdict) then Inl ValueError
      else Inr (map (\<lambda>key. dict_get rowdict key '''') fieldnames))"

section \<open>ItemScraper: the batch exporter\<close>

text \<open>
  \<^verbatim>\<open>_export_items\<close>: the first loop groups the items by destination path in the dict
  \<open>categorized\<close>; the second opens each path for writing (the file is truncated), writes the
  header, then one row per item. An exception of \<^verbatim>\<open>writerow\<close> leaves the \<^verbatim>\<open>with\<close> block: the
  rows written so far stay in the file and the remaining groups are not written. The
  functions return the file system together with the exception, if any.
\<close>

definition categorize_step :: "path \<Rightarrow> (path \<times> item list) list \<Rightarrow> item \<Rightarrow> (path \<times> item list) list"
  where
  "categorize_step output_dir categorized it =
     (let filepath = get_category_path output_dir it;
          categorized1 = (if map_of categorized filepath = None
                          then AList.update filepath [] categorized else categorized)
      in AList.update filepath
           ((case map_of categorized1 filepath of None \<Rightarrow> [] | Some l \<Rightarrow> l) @ [it])
           categorized1)"

definition categorize :: "path \<Rightarrow> item list \<Rightarrow> (path \<times> item list) list" where
  "categorize output_dir items = foldl (categorize_step output_dir) [] items"

definition batch_fields :: "item \<Rightarrow> string list" where
  \<comment> \<open>\<^verbatim>\<open>Weapon.FIELDS if isinstance(item, Weapon) else Equipment.FIELDS\<close>\<close>
  "batch_fields it =
     (if isinstance_Weapon it then FIELDS Scraper_Weapon else FIELDS Scraper_Equipment)"

fun write_rows :: "string list \<Rightarrow> item list \<Rightarrow> csv_row list \<Rightarrow> csv_row list \<times> py_error option"
  where
  "write_rows fieldnames [] rows = (rows, None)"
| "write_rows fieldnames (it # its) rows =
     (case dict_to_list fieldnames (to_dict it) of
        Inl e \<Rightarrow> (rows, Some e)
      | Inr r \<Rightarrow> write_rows fieldnames its (rows @ [r]))"

definition write_file :: "path \<Rightarrow> item list \<Rightarrow> files \<Rightarrow> files \<times> py_error option" where
  "write_file filepath category_items fs =
     (case category_items of
        [] \<Rightarrow> (fs, Some IndexError)
      | first # _ \<Rightarrow>
          let fieldnames = batch_fields first;
              (rows, err) = write_rows fieldnames category_items [fieldnames]
          in (fs(filepath \<mapsto> rows), err))"

fun export_groups :: "(path \<times> item list) list \<Rightarrow> files \<Rightarrow> files \<times> py_error option" where
  "export_groups [] fs = (fs, None)"
| "export_groups ((filepath, category_items) # rest) fs =
     (case write_file filepath category_items fs of
        (fs', Some e) \<Rightarrow> (fs', Some e)
      | (fs', None) \<Rightarrow> export_groups rest fs')"

definition export_items :: "path \<Rightarrow> item list \<Rightarrow> files \<Rightarrow> files \<times> py_error option" where
  "export_items output_dir items fs = export_groups (categorize output_dir items) fs"

section \<open>CSVExporter: the single-record append primitive (exporters.py)\<close>

text \<open>
  The file is opened for appending (created empty when absent); the header is written
  when the file has size zero, that is, when it has no row yet.
\<close>

definition export_item :: "path \<Rightarrow> item \<Rightarrow> string \<Rightarrow> files \<Rightarrow> files \<times> py_error option" where
  "export_item base_path it filename fs =
     (let filepath = base_path @ [filename];
          old = (case fs filepath of None \<Rightarrow> [] | Some rows \<Rightarrow> rows);
          fieldnames = FIELDS (cls it);
          opened = (if old = [] then old @ [fieldnames] else old)
      in case dict_to_list fieldnames (to_dict it) of
           Inl e \<Rightarrow> (fs(filepath \<mapsto> opened), Some e)
         | Inr r \<Rightarrow> (fs(filepath \<mapsto> opened @ [r]), None))"

text \<open>The notions the properties of the exporter are stated with.\<close>

definition to_row :: "item \<Rightarrow> csv_row" where
  "to_row it = map (\<lambda>key. dict_get (to_dict it) key '''') (batch_fields it)"

definition routed :: "path \<Rightarrow> item list \<Rightarrow> path \<Rightarrow> item list" where
  "routed output_dir items p = filter (\<lambda>it. get_category_path output_dir it = p) items"

definition in_schema :: "item \<Rightarrow> bool" where
  "in_schema it = list_all (\<lambda>k. k \<in> set (batch_fields it)) (dict_keys (attributes it))"

section \<open>The transport and the markup parser\<close>

text \<open>
  \<^verbatim>\<open>session.get\<close> and \<^verbatim>\<open>BeautifulSoup\<close> are outside the repository. A fetched page is what
  the code asks of its parse tree: the \<^verbatim>\<open>a\<close> elements carrying an \<^verbatim>\<open>href\<close> inside the element
  with id \<^verbatim>\<open>mw-content-text\<close>, in document order (\<open>None\<close> when that element is absent), and
  for the first \<^verbatim>\<open>div\<close> of class \<^verbatim>\<open>infobox\<close> the cell texts of each of its \<^verbatim>\<open>tr\<close> rows
  (\<open>None\<close> when there is no such \<^verbatim>\<open>div\<close>). A request either raises or returns a response.
  The transport is a function of the number of requests made before and of the URL, so
  that a server may answer the same URL differently over time.
\<close>

record anchor =
  href :: string
  anchor_text :: string

record page =
  content_links :: "anchor list option"
  infobox_rows :: "string list list option"

record response =
  status_code :: int
  parsed :: page

datatype fetch = Raises | Returns response

type_synonym transport = "nat \<Rightarrow> string \<Rightarrow> fetch"

section \<open>ItemScraper: the category paginator\<close>

definition excluded_markers :: "string list" where
  "excluded_markers =
     [''/Category:'', ''Special:'', ''File:'', ''Discussion:'',
      ''Help:'', ''User:'', ''Template:'', ''Project:'']"

text \<open>
  The \<^verbatim>\<open>for item in items\<close> loop of \<^verbatim>\<open>_extract_category_items\<close>. The Python set \<open>links\<close> is a
  duplicate-free list in insertion order; the order of \<^verbatim>\<open>list(links)\<close> is not specified by
  Python, and the properties below speak of the set of the result only.
\<close>

fun scan_items ::
  "string \<Rightarrow> anchor list \<Rightarrow> string list \<times> bool \<times> string option
     \<Rightarrow> string list \<times> bool \<times> string option" where
  "scan_items base_url [] st = st"
| "scan_items base_url (a # rest) (links, found_items, last_item_this_page) =
     (if list_ex (\<lambda>x. str_in x (href a)) excluded_markers
      then scan_items base_url rest (links, found_items, last_item_this_page)
      else if startswith (href a) ''/''
      then let full_url = base_url @ href a
           in if full_url \<notin> set links
              then scan_items base_url rest (links @ [full_url], True, Some (anchor_text a))
              else scan_items base_url rest (links, found_items, last_item_this_page)
      else scan_items base_url rest (links, found_items, last_item_this_page))"

definition truthy :: "string option \<Rightarrow> bool" where
  \<comment> \<open>\<^verbatim>\<open>if last_item:\<close> is false for \<^verbatim>\<open>None\<close> and for the empty string\<close>
  "truthy s = (case s of None \<Rightarrow> False | Some t \<Rightarrow> t \<noteq> [])"

text \<open>
  One round of the \<^verbatim>\<open>while True\<close> loop. The state is the number of requests made so far,
  \<open>links\<close> and \<open>last_item\<close>. \<open>Inl\<close> is a \<^verbatim>\<open>break\<close> (or the exception handler, which returns
  the empty list) with the returned list and the number of requests made; \<open>Inr\<close> is the
  state of the next round. The politeness delay between rounds is not modelled.
\<close>

type_synonym pg_state = "nat \<times> string list \<times> string option"

definition page_url :: "string \<Rightarrow> string option \<Rightarrow> string" where
  \<comment> \<open>\<^verbatim>\<open>url = category_url\<close>, then \<^verbatim>\<open>url += f"?pagefrom={last_item}"\<close> when \<open>last_item\<close> is truthy\<close>
  "page_url category_url last_item =
     category_url @
       (if truthy last_item
        then ''?pagefrom='' @ (case last_item of None \<Rightarrow> [] | Some l \<Rightarrow> l)
        else [])"

definition page_step ::
  "transport \<Rightarrow> string \<Rightarrow> string \<Rightarrow> pg_state \<Rightarrow> (string list \<times> nat) + pg_state" where
  "page_step session_get base_url category_url st =
     (case st of (n, links, last_item) \<Rightarrow>
        (case session_get n (page_url category_url last_item) of
           Raises \<Rightarrow> Inl ([], Suc n)
         | Returns response \<Rightarrow>
             if status_code response \<noteq> 200 then Inl (links, Suc n)
             else case content_links (parsed response) of
                    None \<Rightarrow> Inl (links, Suc n)
                  | Some items \<Rightarrow>
                      (case scan_items base_url items (links, False, None) of
                         (links', found_items, last_item_this_page) \<Rightarrow>
                           if \<not> found_items then Inl (links', Suc n)
                           else if \<not> truthy last_item_this_page then Inl (links', Suc n)
                           else Inr (Suc n, links', last_item_this_page))))"

partial_function (option) paginate_loop ::
  "transport \<Rightarrow> string \<Rightarrow> string \<Rightarrow> pg_state \<Rightarrow> (string list \<times> nat) option" where
  "paginate_loop session_get base_url category_url st =
     (case page_step session_get base_url category_url st of
        Inl r \<Rightarrow> Some r
      | Inr st' \<Rightarrow> paginate_loop session_get base_url category_url st')"

declare paginate_loop.simps [code]

definition extract_category_items ::
  "transport \<Rightarrow> string \<Rightarrow> string \<Rightarrow> nat \<Rightarrow> (string list \<times> nat) option" where
  \<comment> \<open>\<open>n\<close> requests were made before the call; \<open>None\<close> is a loop that never ends.\<close>
  "extract_category_items session_get base_url category_url n =
     paginate_loop session_get base_url category_url (n, [], None)"


definition new_links :: "string \<Rightarrow> anchor list \<Rightarrow> string list \<Rightarrow> string list" where
  \<comment> \<open>the URLs a page adds to \<open>links\<close>\<close>
  "new_links base_url items links =
     drop (length links) (fst (scan_items base_url items (links, False, None)))"

definition fetch_ends :: "transport \<Rightarrow> string \<Rightarrow> string \<Rightarrow> pg_state \<Rightarrow> bool" where
  \<comment> \<open>the request made in state \<open>st\<close> returns a non-success status, or a page that
      contributes no new link (one without the content region too)\<close>
  "fetch_ends session_get base_url category_url st =
     (case st of (n, links, last_item) \<Rightarrow>
        (case session_get n (page_url category_url last_item) of
           Raises \<Rightarrow> False
         | Returns response \<Rightarrow>
             status_code response \<noteq> 200 \<or>
             (case content_links (parsed response) of
                None \<Rightarrow> True
              | Some items \<Rightarrow> new_links base_url items links = [])))"

text \<open>A transport for the examples: a site of fixed pages.\<close>

definition site :: "(string \<times> page) list \<Rightarrow> transport" where
  \<comment> \<open>the page listed for the URL with status 200, and status 404 with an empty page otherwise\<close>
  "site pages n url =
     (case map_of pages url of
        None \<Rightarrow> Returns \<lparr>status_code = 404,
                          parsed = \<lparr>content_links = None, infobox_rows = None\<rparr>\<rparr>
      | Some pg \<Rightarrow> Returns \<lparr>status_code = 200, parsed = pg\<rparr>)"

definition kept :: "string \<Rightarrow> string list \<Rightarrow> bool" where
  \<comment> \<open>every URL of the list is the base URL followed by a path without an excluded marker\<close>
  "kept base_url links =
     (\<forall>u \<in> set links. \<exists>h. u = base_url @ h \<and>
        \<not> list_ex (\<lambda>x. str_in x h) excluded_markers)"

definition wiki :: string where
  "wiki = ''https://wiki.project1999.com''"

definition arms_url :: string where
  "arms_url = wiki @ ''/Category:Arms''"

definition listing :: "anchor list \<Rightarrow> page" where
  "listing items = \<lparr>content_links = Some items, infobox_rows = None\<rparr>"

definition sword_site :: "(string \<times> page) list" where
  "sword_site =
     [(arms_url, listing [\<lparr>href = ''/Rusty_Sword'', anchor_text = ''Rusty Sword''\<rparr>,
                          \<lparr>href = ''/Category:Legs'', anchor_text = ''Legs''\<rparr>])]"


definition subcategory_site :: "(string \<times> page) list" where
  "subcategory_site =
     [(arms_url, listing [\<lparr>href = ''/Sub_Category:Arms'', anchor_text = ''Arms''\<rparr>])]"

section \<open>ItemScraper: detail pages\<close>

definition parse_item_data :: "page \<Rightarrow> string pydict option" where
  "parse_item_data soup =
     (case infobox_rows soup of
        None \<Rightarrow> None
      | Some trs \<Rightarrow>
          Some (fold (\<lambda>cols data.
                        if length cols = 2
                        then AList.update (strip (cols ! 0)) (strip (cols ! 1)) data
                        else data) trs []))"

text \<open>
  \<^verbatim>\<open>scrape_item_page\<close> wraps its whole body in \<^verbatim>\<open>try ... except Exception\<close> and returns
  \<^verbatim>\<open>None\<close> from the handler. The body is \<open>scrape_item_page_body\<close>, whose \<open>Inl\<close> is a raised
  exception; \<open>scrape_item_page\<close> is the body under the handler. The result keeps the sum
  type, so that the caller's own handler has a branch to take.
\<close>

definition scrape_item_page_body :: "transport \<Rightarrow> nat \<Rightarrow> string \<Rightarrow> py_error + item option"
  where
  "scrape_item_page_body session_get n url =
     (case session_get n url of
        Raises \<Rightarrow> Inl RequestException
      | Returns response \<Rightarrow>
          (case parse_item_data (parsed response) of
             None \<Rightarrow> Inr None
           | Some item_data \<Rightarrow>
               if item_data = [] then Inr None
               else let nm = replace_char (last (split url CHR ''/'')) CHR ''_'' CHR '' ''
                    in Inr (Some (classify nm item_data))))"

definition scrape_item_page :: "transport \<Rightarrow> nat \<Rightarrow> string \<Rightarrow> py_error + item option" where
  "scrape_item_page session_get n url =
     (case scrape_item_page_body session_get n url of
        Inl e \<Rightarrow> Inr None
      | Inr r \<Rightarrow> Inr r)"

text \<open>
  The \<^verbatim>\<open>for url in urls\<close> loop of \<^verbatim>\<open>scrape_category\<close> (the loop of \<^verbatim>\<open>scrape_items\<close> is the
  same). The state is the number of requests made, \<open>items\<close> and \<open>failed_items\<close>.
\<close>

type_synonym scrape_state = "nat \<times> item list \<times> string list"

fun scrape_urls :: "transport \<Rightarrow> string list \<Rightarrow> scrape_state \<Rightarrow> scrape_state" where
  "scrape_urls session_get [] st = st"
| "scrape_urls session_get (url # urls) (n, items, failed_items) =
     (if str_in ''Category:'' url then scrape_urls session_get urls (n, items, failed_items)
      else case scrape_item_page session_get n url of
             Inl e \<Rightarrow> scrape_urls session_get urls (Suc n, items, failed_items @ [url])
           | Inr None \<Rightarrow> scrape_urls session_get urls (Suc n, items, failed_items)
           | Inr (Some it) \<Rightarrow>
               if attributes it \<noteq> []
               then scrape_urls session_get urls (Suc n, items @ [it], failed_items)
               else scrape_urls session_get urls (Suc n, items, failed_items))"

text \<open>
  \<^verbatim>\<open>scrape_category\<close>: the paginator, the loop over its URLs, then the export of the batch.
  An exception of the export reaches the outer handler, which returns the empty list.
  The result is the returned items with the requests made, \<open>failed_items\<close> and the files.
\<close>

definition scrape_category ::
  "transport \<Rightarrow> string \<Rightarrow> path \<Rightarrow> string \<Rightarrow> nat \<times> string list \<times> files
     \<Rightarrow> (item list \<times> nat \<times> string list \<times> files) option" where
  "scrape_category session_get base_url output_dir category_url st =
     (case st of (n, failed_items, fs) \<Rightarrow>
        (case extract_category_items session_get base_url category_url n of
           None \<Rightarrow> None
         | Some (urls, n1) \<Rightarrow>
             if urls = [] then Some ([], n1, failed_items, fs)
             else (case scrape_urls session_get urls (n1, [], failed_items) of
                     (n2, items, failed_items') \<Rightarrow>
                       if items \<noteq> []
                       then (case export_items output_dir items fs of
                               (fs', Some e) \<Rightarrow> Some ([], n2, failed_items', fs')
                             | (fs', None) \<Rightarrow> Some (items, n2, failed_items', fs'))
                       else Some (items, n2, failed_items', fs))))"

text \<open>
  What a run of the exporter that raises nothing leaves in the files: every group's file
  is its header followed by the rows of its items. A group is well formed when it is not
  empty and each of its items has its attribute keys in the schema and the schema of the
  first item.
\<close>

definition file_rows :: "item list \<Rightarrow> csv_row list" where
  "file_rows its = batch_fields (hd its) # map to_row its"

definition group_ok :: "path \<times> item list \<Rightarrow> bool" where
  "group_ok g = (snd g \<noteq> [] \<and>
     (\<forall>it \<in> set (snd g). in_schema it \<and> batch_fields it = batch_fields (hd (snd g))))"

fun write_all :: "(path \<times> item list) list \<Rightarrow> files \<Rightarrow> files" where
  "write_all [] fs = fs"
| "write_all ((p, its) # rest) fs = write_all rest (fs(p \<mapsto> file_rows its))"

definition data_rows :: "files \<Rightarrow> path \<Rightarrow> nat" where
  \<comment> \<open>the number of rows below the header of the file at a path (0 when there is no file)\<close>
  "data_rows fs p = (case fs p of None \<Rightarrow> 0 | Some rows \<Rightarrow> length rows - 1)"

text \<open>Three records, as \<^verbatim>\<open>scrape_item_page\<close> builds them, for the examples below.\<close>

definition sword :: item where
  "sword = classify ''Rusty Sword'' [(''Type'', ''1H Slashing''), (''Damage'', ''7'')]"

definition cap :: item where
  "cap = classify ''Cap'' [(''Slot'', ''Head''), (''AC'', ''5'')]"

definition ring :: item where
  "ring = classify ''Ring'' [(''AC'', ''1'')]"

text \<open>Detail pages and sites for the examples of the scrape loop.\<close>

definition sword_page :: page where
  "sword_page =
     \<lparr>content_links = None,
      infobox_rows = Some [[''Type'', ''1H Slashing''], [''Damage'', ''7'']]\<rparr>"

definition ring_page :: page where
  "ring_page = \<lparr>content_links = None, infobox_rows = Some [[''AC'', ''1'']]\<rparr>"

definition main_page_site :: "(string \<times> page) list" where
  "main_page_site =
     [(arms_url, listing [\<lparr>href = ''/'', anchor_text = ''Main Page''\<rparr>]),
      (wiki @ ''/'', sword_page)]"

definition flaky :: transport where
  \<comment> \<open>the request for the sword's page raises; the ring's page exists; any other URL gives 404\<close>
  "flaky n url =
     (if url = wiki @ ''/Rusty_Sword'' then Raises
      else site [(wiki @ ''/Ring'', ring_page)] n url)"

section \<open>Properties of grouping and of the batch exporter\<close>

lemma categorize_step_map_of:
  "map_of (categorize_step out cat it) p =
     (if get_category_path out it = p
      then Some ((case map_of cat p of None \<Rightarrow> [] | Some l \<Rightarrow> l) @ [it])
      else map_of cat p)"
  by (simp add: categorize_step_def Let_def update_conv')

lemma categorize_step_distinct:
  "distinct (map fst cat) \<Longrightarrow> distinct (map fst (categorize_step out cat it))"
  by (simp add: categorize_step_def Let_def distinct_update)

lemma foldl_categorize_map_of:
  "map_of (foldl (categorize_step out) cat items) p =
     (if routed out items p = [] then map_of cat p
      else Some ((case map_of cat p of None \<Rightarrow> [] | Some l \<Rightarrow> l) @ routed out items p))"
proof (induction items arbitrary: cat)
  case Nil
  then show ?case by (simp add: routed_def)
next
  case (Cons it items)
  show ?case
    by (simp add: Cons.IH categorize_step_map_of) (simp add: routed_def)
qed

lemma foldl_categorize_distinct:
  "distinct (map fst cat) \<Longrightarrow> distinct (map fst (foldl (categorize_step out) cat items))"
  by (induction items arbitrary: cat) (simp_all add: categorize_step_distinct)

lemma categorize_map_of:
  "map_of (categorize out items) p =
     (if routed out items p = [] then None else Some (routed out items p))"
  by (simp add: categorize_def foldl_categorize_map_of)

lemma categorize_distinct: "distinct (map fst (categorize out items))"
  by (simp add: categorize_def foldl_categorize_distinct)

lemma categorize_groups:
  assumes "(p, its) \<in> set (categorize out items)"
  shows "its = routed out items p \<and> its \<noteq> []"
proof -
  have "map_of (categorize out items) p = Some its"
    using assms categorize_distinct by (simp add: map_of_eq_Some_iff)
  then show ?thesis
    by (simp add: categorize_map_of split: if_splits)
qed

lemma weapon_path:
  "isinstance_Weapon it \<Longrightarrow>
   get_category_path out it =
     out @ [''weapons'',
            first_match WEAPONS (lower (dict_get (attributes it) ''Type'' [])) ''misc'' @ ''.csv'']"
  unfolding get_category_path_def Let_def by simp

lemma equipment_path:
  "\<not> isinstance_Weapon it \<Longrightarrow>
   get_category_path out it =
     out @ [''equipment'',
            dict_get EQUIPMENT (lower (dict_get (attributes it) ''Slot'' [])) ''misc'' @ ''.csv'']"
  unfolding get_category_path_def Let_def by simp

lemma area_differs: "out @ [''weapons'', f] \<noteq> out @ [''equipment'', g]"
  by simp

lemma same_path_same_class:
  assumes "get_category_path out a = get_category_path out b"
  shows "isinstance_Weapon a = isinstance_Weapon b"
proof (rule ccontr)
  assume "isinstance_Weapon a \<noteq> isinstance_Weapon b"
  then consider "isinstance_Weapon a" "\<not> isinstance_Weapon b"
    | "\<not> isinstance_Weapon a" "isinstance_Weapon b" by blast
  then show False
  proof cases
    case 1
    show False
      using assms area_differs unfolding weapon_path [OF 1(1)] equipment_path [OF 1(2)]
      by blast
  next
    case 2
    show False
      using assms area_differs unfolding weapon_path [OF 2(2)] equipment_path [OF 2(1)]
      by metis
  qed
qed

lemma same_path_same_fields:
  "get_category_path out a = get_category_path out b \<Longrightarrow> batch_fields a = batch_fields b"
  using same_path_same_class [of out a b] by (simp add: batch_fields_def)

lemma fold_update_keys:
  "fst ` set (fold (\<lambda>(k, v) d. AList.update k v d) xs d) = fst ` set d \<union> fst ` set xs"
proof (induction xs arbitrary: d)
  case Nil
  then show ?case by simp
next
  case (Cons x xs)
  obtain k v where x: "x = (k, v)" by (cases x)
  show ?case by (simp add: Cons.IH x dom_update)
qed

lemma to_dict_keys:
  "set (dict_keys (to_dict it)) = insert ''Name'' (set (dict_keys (attributes it)))"
  by (simp add: to_dict_def dict_keys_def fold_update_keys)

lemma Name_in_batch_fields: "''Name'' \<in> set (batch_fields it)"
  by (simp add: batch_fields_def)

lemma in_schema_dict_to_list:
  assumes "in_schema it"
  shows "dict_to_list (batch_fields it) (to_dict it) = Inr (to_row it)"
proof -
  have "set (dict_keys (to_dict it)) \<subseteq> set (batch_fields it)"
    using assms Name_in_batch_fields [of it]
    by (auto simp: in_schema_def list_all_iff to_dict_keys)
  then have "\<not> list_ex (\<lambda>k. k \<notin> set (batch_fields it)) (dict_keys (to_dict it))"
    by (auto simp: list_ex_iff)
  then show ?thesis
    by (simp add: dict_to_list_def to_row_def)
qed


lemma write_rows_in_schema:
  "\<forall>it \<in> set its. in_schema it \<and> batch_fields it = fns \<Longrightarrow>
   write_rows fns its rows = (rows @ map to_row its, None)"
proof (induction its arbitrary: rows)
  case Nil
  then show ?case by simp
next
  case (Cons it its)
  then have "dict_to_list fns (to_dict it) = Inr (to_row it)"
    using in_schema_dict_to_list [of it] by auto
  with Cons show ?case by simp
qed

lemma write_file_in_schema:
  assumes "its \<noteq> []"
    and "\<forall>it \<in> set its. in_schema it \<and> batch_fields it = batch_fields (hd its)"
  shows "write_file p its fs = (fs(p \<mapsto> batch_fields (hd its) # map to_row its), None)"
proof -
  obtain first rest where its: "its = first # rest" using assms(1) by (cases its) auto
  have "write_rows (batch_fields first) its [batch_fields first]
          = ([batch_fields first] @ map to_row its, None)"
    using assms(2) its by (intro write_rows_in_schema) auto
  then show ?thesis by (simp add: write_file_def its)
qed

lemma write_file_group_ok:
  assumes "group_ok (p, its)"
  shows "write_file p its fs = (fs(p \<mapsto> file_rows its), None)"
proof -
  have a: "its \<noteq> []"
    and b: "\<forall>it \<in> set its. in_schema it \<and> batch_fields it = batch_fields (hd its)"
    using assms unfolding group_ok_def snd_conv by blast+
  show ?thesis unfolding file_rows_def by (rule write_file_in_schema [OF a b])
qed

lemma export_groups_write_all:
  "\<forall>g \<in> set groups. group_ok g \<Longrightarrow> export_groups groups fs = (write_all groups fs, None)"
proof (induction groups arbitrary: fs)
  case Nil
  show ?case by simp
next
  case (Cons g groups)
  obtain p its where g: "g = (p, its)" by (cases g)
  have ok: "group_ok (p, its)" using Cons.prems g by simp
  have rest: "\<forall>g \<in> set groups. group_ok g" using Cons.prems by simp
  show ?case
    by (simp add: g write_file_group_ok [OF ok] Cons.IH [OF rest])
qed

lemma write_all_lookup:
  "distinct (map fst groups) \<Longrightarrow>
   write_all groups fs q =
     (case map_of groups q of None \<Rightarrow> fs q | Some its \<Rightarrow> Some (file_rows its))"
proof (induction groups arbitrary: fs)
  case Nil
  show ?case by simp
next
  case (Cons g groups)
  obtain p its where g: "g = (p, its)" by (cases g)
  have d: "distinct (map fst groups)" and notin: "map_of groups p = None"
    using Cons.prems g by (simp_all add: map_of_eq_None_iff)
  have step: "write_all (g # groups) fs q = write_all groups (fs(p \<mapsto> file_rows its)) q"
    by (simp add: g)
  have IH: "write_all groups (fs(p \<mapsto> file_rows its)) q =
      (case map_of groups q of
         None \<Rightarrow> (fs(p \<mapsto> file_rows its)) q
       | Some its \<Rightarrow> Some (file_rows its))"
    by (rule Cons.IH [OF d])
  show ?case
  proof (cases "q = p")
    case True
    then show ?thesis unfolding step IH by (simp add: g notin)
  next
    case False
    then show ?thesis unfolding step IH by (simp add: g split: option.split)
  qed
qed


lemma categorize_group_ok:
  assumes all: "\<forall>it \<in> set items. in_schema it"
    and g: "g \<in> set (categorize out items)"
  shows "group_ok g"
proof -
  obtain p its where pg: "g = (p, its)" by (cases g)
  have "(p, its) \<in> set (categorize out items)" using g pg by simp
  then have its: "its = routed out items p" and ne: "its \<noteq> []"
    using categorize_groups by blast+
  have hd_in: "hd its \<in> set its" using ne by simp
  have "in_schema it \<and> batch_fields it = batch_fields (hd its)" if "it \<in> set its" for it
  proof -
    have "it \<in> set items" and "get_category_path out it = p"
      using that its by (simp_all add: routed_def)
    moreover have "get_category_path out (hd its) = p"
      using hd_in its by (simp add: routed_def)
    ultimately show ?thesis
      using all same_path_same_fields [of out it "hd its"] by simp
  qed
  then show ?thesis unfolding group_ok_def pg snd_conv using ne by blast
qed

lemma export_items_in_schema:
  assumes "\<forall>it \<in> set items. in_schema it"
  shows "export_items out items fs = (write_all (categorize out items) fs, None)"
  unfolding export_items_def
  using categorize_group_ok [OF assms] by (intro export_groups_write_all) blast

lemma written_file:
  "write_all (categorize out items) fs p =
     (if routed out items p = [] then fs p else Some (file_rows (routed out items p)))"
  by (simp add: write_all_lookup [OF categorize_distinct] categorize_map_of)

lemma sum_routed:
  "(\<Sum>p \<in> set (map (get_category_path out) items). length (routed out items p)) = length items"
proof -
  have "length (routed out items p) = count_list (map (get_category_path out) items) p" for p
    by (induction items) (simp_all add: routed_def)
  then show ?thesis
    using sum_count_set [of "map (get_category_path out) items" "set (map (get_category_path out) items)"]
    by simp
qed

lemma routed_fields:
  assumes "x \<in> set (routed out items (get_category_path out it))"
  shows "batch_fields x = batch_fields it"
proof -
  have "get_category_path out x = get_category_path out it"
    using assms by (simp add: routed_def)
  then show ?thesis by (rule same_path_same_fields)
qed

lemma dict_to_list_cases:
  "dict_to_list fns d = Inl ValueError \<or>
   dict_to_list fns d = Inr (map (\<lambda>key. dict_get d key []) fns)"
  by (simp add: dict_to_list_def)

lemma write_rows_prefix:
  "\<exists>k. fst (write_rows fns its rows) =
         rows @ map (\<lambda>x. map (\<lambda>key. dict_get (to_dict x) key []) fns) (take k its)"
proof (induction its arbitrary: rows)
  case Nil
  show ?case by simp
next
  case (Cons it its)
  show ?case
  proof (cases "dict_to_list fns (to_dict it)")
    case (Inl e)
    then have "fst (write_rows fns (it # its) rows) =
        rows @ map (\<lambda>x. map (\<lambda>key. dict_get (to_dict x) key []) fns) (take 0 (it # its))"
      by simp
    then show ?thesis by blast
  next
    case (Inr r)
    then have r: "r = map (\<lambda>key. dict_get (to_dict it) key []) fns"
      using dict_to_list_cases [of fns "to_dict it"] by simp
    obtain k where "fst (write_rows fns its (rows @ [r])) =
        (rows @ [r]) @ map (\<lambda>x. map (\<lambda>key. dict_get (to_dict x) key []) fns) (take k its)"
      using Cons.IH by blast
    then have "fst (write_rows fns (it # its) rows) =
        rows @ map (\<lambda>x. map (\<lambda>key. dict_get (to_dict x) key []) fns) (take (Suc k) (it # its))"
      using Inr r by simp
    then show ?thesis by blast
  qed
qed

lemma write_file_Cons:
  "write_file p (first # rest) fs =
     (fs(p \<mapsto> fst (write_rows (batch_fields first) (first # rest) [batch_fields first])),
      snd (write_rows (batch_fields first) (first # rest) [batch_fields first]))"
  by (simp add: write_file_def Let_def case_prod_beta del: write_rows.simps)

lemma write_file_prefix:
  assumes "its \<noteq> []"
  shows "\<exists>k. fst (write_file p its fs) =
           fs(p \<mapsto> batch_fields (hd its) #
                  map (\<lambda>x. map (\<lambda>key. dict_get (to_dict x) key []) (batch_fields (hd its)))
                    (take k its))"
proof -
  obtain first rest where its: "its = first # rest" using assms by (cases its) auto
  obtain k where "fst (write_rows (batch_fields first) its [batch_fields first]) =
      [batch_fields first] @
        map (\<lambda>x. map (\<lambda>key. dict_get (to_dict x) key []) (batch_fields first)) (take k its)"
    using write_rows_prefix by blast
  then have "fst (write_file p its fs) =
           fs(p \<mapsto> batch_fields (hd its) #
                  map (\<lambda>x. map (\<lambda>key. dict_get (to_dict x) key []) (batch_fields (hd its)))
                    (take k its))"
    unfolding its write_file_Cons by simp
  then show ?thesis by blast
qed

lemma export_groups_changed:
  "fst (export_groups gs fs) p \<noteq> fs p \<Longrightarrow>
   \<exists>its k. (p, its) \<in> set gs \<and> its \<noteq> [] \<and>
     fst (export_groups gs fs) p =
       Some (batch_fields (hd its) #
             map (\<lambda>x. map (\<lambda>key. dict_get (to_dict x) key []) (batch_fields (hd its)))
               (take k its))"
proof (induction gs arbitrary: fs)
  case Nil
  then show ?case by simp
next
  case (Cons g gs)
  obtain p0 its0 where g: "g = (p0, its0)" by (cases g)
  obtain fs1 err where w: "write_file p0 its0 fs = (fs1, err)" by (cases "write_file p0 its0 fs")
  show ?case
  proof (cases "its0 = []")
    case True
    then have "export_groups (g # gs) fs = (fs, Some IndexError)"
      by (simp add: g write_file_def)
    then show ?thesis using Cons.prems by simp
  next
    case ne: False
    obtain k0 where k0: "fs1 =
           fs(p0 \<mapsto> batch_fields (hd its0) #
                  map (\<lambda>x. map (\<lambda>key. dict_get (to_dict x) key []) (batch_fields (hd its0)))
                    (take k0 its0))"
      using write_file_prefix [OF ne, of p0 fs] w by auto
    show ?thesis
    proof (cases "fst (export_groups (g # gs) fs) p = fs1 p")
      case True
      then have "fs1 p \<noteq> fs p" using Cons.prems by simp
      then have "p = p0" using k0 by (auto split: if_splits)
      then have "fst (export_groups (g # gs) fs) p =
           Some (batch_fields (hd its0) #
                  map (\<lambda>x. map (\<lambda>key. dict_get (to_dict x) key []) (batch_fields (hd its0)))
                    (take k0 its0))"
        using True k0 by simp
      then show ?thesis using \<open>p = p0\<close> ne g by auto
    next
      case False
      then have e: "export_groups (g # gs) fs = export_groups gs fs1"
        using w g by (cases err) auto
      then have "fst (export_groups gs fs1) p \<noteq> fs1 p" using False by simp
      then obtain its k where "(p, its) \<in> set gs" "its \<noteq> []"
        "fst (export_groups gs fs1) p =
           Some (batch_fields (hd its) #
             map (\<lambda>x. map (\<lambda>key. dict_get (to_dict x) key []) (batch_fields (hd its)))
               (take k its))"
        using Cons.IH by blast
      then show ?thesis using e by auto
    qed
  qed
qed

lemma export_items_changed:
  assumes "fst (export_items out items fs) p \<noteq> fs p"
  shows "routed out items p \<noteq> [] \<and>
     (\<exists>k. fst (export_items out items fs) p =
       Some (batch_fields (hd (routed out items p)) #
             map (\<lambda>x. map (\<lambda>key. dict_get (to_dict x) key [])
                        (batch_fields (hd (routed out items p))))
               (take k (routed out items p))))"
proof -
  obtain its k where g: "(p, its) \<in> set (categorize out items)"
    and f: "fst (export_items out items fs) p =
       Some (batch_fields (hd its) #
             map (\<lambda>x. map (\<lambda>key. dict_get (to_dict x) key []) (batch_fields (hd its)))
               (take k its))"
    using export_groups_changed [of "categorize out items" fs p] assms
    unfolding export_items_def by blast
  have "its = routed out items p \<and> its \<noteq> []" using g by (rule categorize_groups)
  then show ?thesis using f by blast
qed

lemma export_item_as_write_file:
  "\<exists>rows err.
     write_file (base_path @ [filename]) [it] fs0 =
       (fs0(base_path @ [filename] \<mapsto> batch_fields it # rows), err) \<and>
     (batch_fields it = FIELDS (cls it) \<longrightarrow>
      export_item base_path it filename fs0 =
       (fs0(base_path @ [filename] \<mapsto>
          (case fs0 (base_path @ [filename]) of
             None \<Rightarrow> batch_fields it # rows
           | Some old \<Rightarrow> if old = [] then batch_fields it # rows else old @ rows)), err))"
proof (cases "dict_to_list (batch_fields it) (to_dict it)")
  case (Inl e)
  then have "write_file (base_path @ [filename]) [it] fs0 =
       (fs0(base_path @ [filename] \<mapsto> batch_fields it # []), Some e)"
    by (simp add: write_file_def)
  moreover have "batch_fields it = FIELDS (cls it) \<longrightarrow>
      export_item base_path it filename fs0 =
       (fs0(base_path @ [filename] \<mapsto>
          (case fs0 (base_path @ [filename]) of
             None \<Rightarrow> batch_fields it # []
           | Some old \<Rightarrow> if old = [] then batch_fields it # [] else old @ [])), Some e)"
    using Inl by (auto simp: export_item_def Let_def split: option.splits simp del: FIELDS.simps)
  ultimately show ?thesis by blast
next
  case (Inr r)
  then have "write_file (base_path @ [filename]) [it] fs0 =
       (fs0(base_path @ [filename] \<mapsto> batch_fields it # [r]), None)"
    by (simp add: write_file_def)
  moreover have "batch_fields it = FIELDS (cls it) \<longrightarrow>
      export_item base_path it filename fs0 =
       (fs0(base_path @ [filename] \<mapsto>
          (case fs0 (base_path @ [filename]) of
             None \<Rightarrow> batch_fields it # [r]
           | Some old \<Rightarrow> if old = [] then batch_fields it # [r] else old @ [r])), None)"
    using Inr by (auto simp: export_item_def Let_def split: option.splits simp del: FIELDS.simps)
  ultimately show ?thesis by blast
qed

lemma write_rows_error:
  "snd (write_rows fns its rows) = None \<or> snd (write_rows fns its rows) = Some ValueError"
proof (induction its arbitrary: rows)
  case Nil
  show ?case by simp
next
  case (Cons it its)
  show ?case
  proof (cases "dict_to_list fns (to_dict it)")
    case (Inl e)
    then show ?thesis using dict_to_list_cases [of fns "to_dict it"] by simp
  next
    case (Inr r)
    then show ?thesis using Cons.IH [of "rows @ [r]"] by simp
  qed
qed

lemma write_rows_raises:
  assumes "x \<in> set its" and "dict_to_list fns (to_dict x) = Inl ValueError"
  shows "snd (write_rows fns its rows) = Some ValueError"
  using assms(1)
proof (induction its arbitrary: rows)
  case Nil
  then show ?case by simp
next
  case (Cons it its)
  show ?case
  proof (cases "dict_to_list fns (to_dict it)")
    case (Inl e)
    then show ?thesis using dict_to_list_cases [of fns "to_dict it"] by simp
  next
    case (Inr r)
    then have "x \<noteq> it" using assms(2) by auto
    then have "x \<in> set its" using Cons.prems by simp
    then show ?thesis using Cons.IH Inr by simp
  qed
qed

lemma export_groups_raises:
  assumes "(p, its) \<in> set gs" and "x \<in> set its"
    and "dict_to_list (batch_fields (hd its)) (to_dict x) = Inl ValueError"
    and "\<forall>g \<in> set gs. snd g \<noteq> []"
  shows "snd (export_groups gs fs) = Some ValueError"
  using assms(1,4)
proof (induction gs arbitrary: fs)
  case Nil
  then show ?case by simp
next
  case (Cons g gs)
  obtain p0 its0 where g: "g = (p0, its0)" by (cases g)
  have "its0 \<noteq> []" using Cons.prems(2) g by simp
  then obtain first rest where its0: "its0 = first # rest" by (cases its0) auto
  let ?w = "write_rows (batch_fields first) (first # rest) [batch_fields first]"
  have w: "write_file p0 its0 fs = (fs(p0 \<mapsto> fst ?w), snd ?w)"
    unfolding its0 by (rule write_file_Cons)
  have "snd ?w = Some ValueError \<or> snd ?w = None"
    using write_rows_error [of "batch_fields first" "first # rest" "[batch_fields first]"]
    by (rule disj_commute [THEN iffD1])
  then show ?case
  proof (elim disjE)
    assume 1: "snd ?w = Some ValueError"
    show ?thesis using 1 by (simp add: g w del: write_rows.simps)
  next
    assume 2: "snd ?w = None"
    have "(p, its) \<noteq> (p0, its0)"
    proof
      assume "(p, its) = (p0, its0)"
      then have "x \<in> set (first # rest)"
        and "dict_to_list (batch_fields first) (to_dict x) = Inl ValueError"
        using assms(2,3) its0 by auto
      then have "snd ?w = Some ValueError" by (rule write_rows_raises)
      then show False using 2 by simp
    qed
    then have "(p, its) \<in> set gs" using Cons.prems(1) g by auto
    moreover have "\<forall>g \<in> set gs. snd g \<noteq> []" using Cons.prems(2) by simp
    ultimately have "snd (export_groups gs (fs(p0 \<mapsto> fst ?w))) = Some ValueError"
      by (rule Cons.IH)
    then show ?thesis by (simp add: g w 2 del: write_rows.simps)
  qed
qed

lemma not_in_schema_raises:
  assumes "\<not> in_schema it"
  shows "dict_to_list (batch_fields it) (to_dict it) = Inl ValueError"
proof -
  obtain k where "k \<in> set (dict_keys (attributes it))" and "k \<notin> set (batch_fields it)"
    using assms by (auto simp: in_schema_def list_all_iff)
  then have "list_ex (\<lambda>k. k \<notin> set (batch_fields it)) (dict_keys (to_dict it))"
    unfolding list_ex_iff to_dict_keys by blast
  then show ?thesis by (simp add: dict_to_list_def)
qed

lemma export_items_raises:
  assumes "it \<in> set items" and "\<not> in_schema it"
  shows "snd (export_items out items fs) = Some ValueError"
proof -
  let ?p = "get_category_path out it"
  let ?its = "routed out items ?p"
  have mem: "it \<in> set ?its" using assms(1) by (simp add: routed_def)
  then have ne: "?its \<noteq> []" by auto
  then have "map_of (categorize out items) ?p = Some ?its"
    by (simp add: categorize_map_of)
  then have g: "(?p, ?its) \<in> set (categorize out items)" by (rule map_of_SomeD)
  have "hd ?its \<in> set ?its" using ne by simp
  then have "batch_fields (hd ?its) = batch_fields it" by (rule routed_fields)
  then have bad: "dict_to_list (batch_fields (hd ?its)) (to_dict it) = Inl ValueError"
    using not_in_schema_raises [OF assms(2)] by simp
  have "\<forall>g \<in> set (categorize out items). snd g \<noteq> []"
    using categorize_groups by fastforce
  then show ?thesis
    unfolding export_items_def by (rule export_groups_raises [OF g mem bad])
qed

section \<open>Classification and the weapon bucket\<close>

lemma lower_1H_Slashing: "lower ''1H Slashing'' = ''1h slashing''"
  by (simp add: lower_def lower_char_def)

lemma determine_1H_Slashing:
  "determine_item_type [(''Type'', ''1H Slashing''), (''Damage'', ''7'')] = Weapon"
  by (simp add: determine_item_type_def dict_get_def lower_1H_Slashing weapon_types_def
      str_in_def sublist_Cons_right)

lemma first_match_1H_Slashing: "first_match WEAPONS ''1h slashing'' ''misc'' = ''1H_Weapons''"
  by (simp add: WEAPONS_def str_in_def sublist_Cons_right)

text \<open>
  C1, as stated, fails: the record classified from the attributes
  \<^verbatim>\<open>{"Type": "1H Slashing", "Damage": "7"}\<close> is a Weapon, but its destination is not
  \<^verbatim>\<open>Slashing.csv\<close> under the weapons area.
\<close>

theorem C1_counterexample:
  "\<not> (determine_item_type [(''Type'', ''1H Slashing''), (''Damage'', ''7'')] = Weapon \<and>
      get_category_path [''output'']
        (classify ''Rusty Sword'' [(''Type'', ''1H Slashing''), (''Damage'', ''7'')])
      = [''output'', ''weapons'', ''Slashing.csv''])"
  by (simp add: get_category_path_def classify_def isinstance_Weapon_def determine_1H_Slashing
      dict_get_def lower_1H_Slashing first_match_1H_Slashing)

text \<open>
  C1, amended: for a record classified from the attributes
  \<^verbatim>\<open>{"Type": "1H Slashing", "Damage": "7"}\<close>, whatever its name and the output directory, the
  classifier yields Weapon and the exporter resolves the destination to \<^verbatim>\<open>1H_Weapons.csv\<close>
  under the weapons area: the first key of the weapon table, in the table's order, that
  occurs in the case-folded Type wins (\<^verbatim>\<open>1h\<close> comes before \<^verbatim>\<open>slashing\<close>), and the
  destination is not \<^verbatim>\<open>misc.csv\<close>.
\<close>

theorem C1_first_token_bucket:
  "determine_item_type [(''Type'', ''1H Slashing''), (''Damage'', ''7'')] = Weapon \<and>
   get_category_path output_dir
     (classify nm [(''Type'', ''1H Slashing''), (''Damage'', ''7'')])
   = output_dir @ [''weapons'', ''1H_Weapons.csv'']"
  by (simp add: get_category_path_def classify_def isinstance_Weapon_def determine_1H_Slashing
      dict_get_def lower_1H_Slashing first_match_1H_Slashing)

lemma no_token_in_empty: "\<not> list_ex (\<lambda>t. str_in t []) weapon_types"
  by (simp add: weapon_types_def str_in_def)

lemma lower_Nil: "lower [] = []"
  by (simp add: lower_def)

text \<open>
  C3: for every attribute mapping, when the Type attribute is absent the classifier returns
  Equipment; when it is present, the classifier returns Weapon if the case-folded Type
  value contains one of the tokens 1h, 2h, bow, throwing, piercing, blunt, slashing as a
  substring, and Equipment if it contains none of them.
\<close>

theorem C3_determine_item_type:
  "(map_of item_data ''Type'' = None \<longrightarrow> determine_item_type item_data = Equipment) \<and>
   (\<forall>v. map_of item_data ''Type'' = Some v \<longrightarrow>
      determine_item_type item_data =
        (if \<exists>t \<in> set [''1h'', ''2h'', ''bow'', ''throwing'', ''piercing'', ''blunt'', ''slashing''].
              str_in t (lower v)
         then Weapon else Equipment))"
proof (intro conjI allI impI)
  assume "map_of item_data ''Type'' = None"
  then show "determine_item_type item_data = Equipment"
    by (simp add: determine_item_type_def dict_get_def lower_Nil no_token_in_empty)
next
  fix v
  assume v: "map_of item_data ''Type'' = Some v"
  then have "item_data \<noteq> []" by auto
  then show "determine_item_type item_data =
        (if \<exists>t \<in> set [''1h'', ''2h'', ''bow'', ''throwing'', ''piercing'', ''blunt'', ''slashing''].
              str_in t (lower v)
         then Weapon else Equipment)"
    using v by (simp add: determine_item_type_def dict_get_def list_ex_iff weapon_types_def)
qed

lemma lower_Long_Bow: "lower ''Long Bow'' = ''long bow''"
  by (simp add: lower_def lower_char_def)

text \<open>
  C3 at two mappings: a Type of \<^verbatim>\<open>Long Bow\<close> contains the token \<^verbatim>\<open>bow\<close> and gives Weapon;
  a mapping without Type gives Equipment.
\<close>

theorem C3_witness:
  "map_of [(''Type'', ''Long Bow'')] ''Type'' = Some ''Long Bow'' \<and>
   determine_item_type [(''Type'', ''Long Bow'')] = Weapon \<and>
   map_of [(''AC'', ''5'')] ''Type'' = None \<and>
   determine_item_type [(''AC'', ''5'')] = Equipment"
  using C3_determine_item_type [of "[(''Type'', ''Long Bow'')]"]
    C3_determine_item_type [of "[(''AC'', ''5'')]"]
  by (simp add: lower_Long_Bow str_in_def sublist_Cons_right)

section \<open>The example records\<close>

lemma sword_eq:
  "sword = \<lparr>name = ''Rusty Sword'',
            attributes = [(''Type'', ''1H Slashing''), (''Damage'', ''7'')],
            cls = Scraper_Weapon\<rparr>"
  by (simp add: sword_def classify_def determine_1H_Slashing)

lemma cap_eq:
  "cap = \<lparr>name = ''Cap'', attributes = [(''Slot'', ''Head''), (''AC'', ''5'')],
          cls = Scraper_Equipment\<rparr>"
  by (simp add: cap_def classify_def determine_item_type_def dict_get_def lower_Nil
      no_token_in_empty)

lemma ring_eq:
  "ring = \<lparr>name = ''Ring'', attributes = [(''AC'', ''1'')], cls = Scraper_Equipment\<rparr>"
  by (simp add: ring_def classify_def determine_item_type_def dict_get_def lower_Nil
      no_token_in_empty)

lemma sword_path: "get_category_path out sword = out @ [''weapons'', ''1H_Weapons.csv'']"
  by (simp add: sword_eq get_category_path_def isinstance_Weapon_def dict_get_def
      lower_1H_Slashing first_match_1H_Slashing)

lemma ring_path: "get_category_path out ring = out @ [''equipment'', ''misc.csv'']"
  by (simp add: ring_eq get_category_path_def isinstance_Weapon_def dict_get_def lower_Nil
      EQUIPMENT_def)

lemma lower_Head: "lower ''Head'' = ''head''"
  by (simp add: lower_def lower_char_def)

lemma cap_path: "get_category_path out cap = out @ [''equipment'', ''Head.csv'']"
  by (simp add: cap_eq get_category_path_def isinstance_Weapon_def dict_get_def lower_Head
      EQUIPMENT_def)

lemma sword_in_schema: "in_schema sword"
  by (simp add: sword_eq in_schema_def batch_fields_def isinstance_Weapon_def dict_keys_def)

lemma ring_in_schema: "in_schema ring"
  by (simp add: ring_eq in_schema_def batch_fields_def isinstance_Weapon_def dict_keys_def)

lemma sword_row:
  "to_row sword = [''Rusty Sword'', ''1H Slashing'', ''7'', [], [], [], [], [], [], [], [], [],
                   [], [], [], []]"
  by (simp add: sword_eq to_row_def batch_fields_def isinstance_Weapon_def to_dict_def
      dict_get_def)

lemma ring_row:
  "to_row ring = [''Ring'', [], ''1'', [], [], [], [], [], [], [], [], [], [], [], []]"
  by (simp add: ring_eq to_row_def batch_fields_def isinstance_Weapon_def to_dict_def
      dict_get_def)

lemma categorize_sword_ring_sword:
  "categorize [''output''] [sword, ring, sword] =
     [([''output'', ''weapons'', ''1H_Weapons.csv''], [sword, sword]),
      ([''output'', ''equipment'', ''misc.csv''], [ring])]"
  by (simp add: categorize_def categorize_step_def sword_path ring_path)

section \<open>Homogeneous destination groups\<close>

text \<open>
  C10: destination groups are homogeneous in archetype. A Weapon record resolves to a path
  under the weapons area and any other record to a path under the equipment area; every
  group the exporter forms is non-empty, all its records resolve to the group's path and are
  of the class of its first record, so the header schema chosen from the first record is
  the schema of every record of the group and no file receives records of both archetypes.
\<close>

theorem C10_groups_homogeneous:
  "(isinstance_Weapon it \<longrightarrow>
      prefix (output_dir @ [''weapons'']) (get_category_path output_dir it)) \<and>
   (\<not> isinstance_Weapon it \<longrightarrow>
      prefix (output_dir @ [''equipment'']) (get_category_path output_dir it)) \<and>
   (\<forall>g \<in> set (categorize output_dir items).
      snd g \<noteq> [] \<and>
      (\<forall>x \<in> set (snd g).
         get_category_path output_dir x = fst g \<and>
         isinstance_Weapon x = isinstance_Weapon (hd (snd g)) \<and>
         batch_fields x = batch_fields (hd (snd g))))"
proof (intro conjI impI ballI)
  assume "isinstance_Weapon it"
  then show "prefix (output_dir @ [''weapons'']) (get_category_path output_dir it)"
    by (simp add: weapon_path)
next
  assume "\<not> isinstance_Weapon it"
  then show "prefix (output_dir @ [''equipment'']) (get_category_path output_dir it)"
    by (simp add: equipment_path)
next
  fix g assume "g \<in> set (categorize output_dir items)"
  then have "(fst g, snd g) \<in> set (categorize output_dir items)" by simp
  then show "snd g \<noteq> []" using categorize_groups by blast
next
  fix g x
  assume g: "g \<in> set (categorize output_dir items)" and x: "x \<in> set (snd g)"
  from g have "(fst g, snd g) \<in> set (categorize output_dir items)" by simp
  then have r: "snd g = routed output_dir items (fst g)" and ne: "snd g \<noteq> []"
    using categorize_groups by blast+
  have px: "get_category_path output_dir x = fst g"
    using x r by (simp add: routed_def)
  have "hd (snd g) \<in> set (snd g)" using ne by simp
  then have ph: "get_category_path output_dir (hd (snd g)) = fst g"
    using r by (simp add: routed_def)
  show "get_category_path output_dir x = fst g" by (rule px)
  show "isinstance_Weapon x = isinstance_Weapon (hd (snd g))"
    using px ph by (intro same_path_same_class [of output_dir]) simp
  show "batch_fields x = batch_fields (hd (snd g))"
    using px ph by (intro same_path_same_fields [of output_dir]) simp
qed

text \<open>
  C10 on the batch sword, ring, sword: the sword is a Weapon under the weapons area, the
  ring is not and is under the equipment area, and the group of \<^verbatim>\<open>1H_Weapons.csv\<close>
  holds the two swords, with the schema of its first record.
\<close>

theorem C10_witness:
  "isinstance_Weapon sword \<and>
   prefix [''output'', ''weapons''] (get_category_path [''output''] sword) \<and>
   \<not> isinstance_Weapon ring \<and>
   prefix [''output'', ''equipment''] (get_category_path [''output''] ring) \<and>
   ([''output'', ''weapons'', ''1H_Weapons.csv''], [sword, sword])
     \<in> set (categorize [''output''] [sword, ring, sword]) \<and>
   batch_fields sword = batch_fields (hd [sword, sword])"
proof -
  let ?g = "([''output'', ''weapons'', ''1H_Weapons.csv''], [sword, sword])"
  have w: "isinstance_Weapon sword" by (simp add: sword_eq isinstance_Weapon_def)
  have e: "\<not> isinstance_Weapon ring" by (simp add: ring_eq isinstance_Weapon_def)
  have g: "?g \<in> set (categorize [''output''] [sword, ring, sword])"
    by (simp add: categorize_sword_ring_sword)
  note cw = C10_groups_homogeneous [of sword "[''output'']" "[sword, ring, sword]"]
  note ce = C10_groups_homogeneous [of ring "[''output'']" "[sword, ring, sword]"]
  have pw: "prefix [''output'', ''weapons''] (get_category_path [''output''] sword)"
    using cw [THEN conjunct1] w by simp
  have pe: "prefix [''output'', ''equipment''] (get_category_path [''output''] ring)"
    using ce [THEN conjunct2, THEN conjunct1] e by simp
  have "snd ?g \<noteq> [] \<and>
      (\<forall>x \<in> set (snd ?g).
         get_category_path [''output''] x = fst ?g \<and>
         isinstance_Weapon x = isinstance_Weapon (hd (snd ?g)) \<and>
         batch_fields x = batch_fields (hd (snd ?g)))"
    using cw [THEN conjunct2, THEN conjunct2] g by (rule bspec)
  then have "\<forall>x \<in> set (snd ?g). batch_fields x = batch_fields (hd (snd ?g))"
    by blast
  moreover have "sword \<in> set (snd ?g)" by simp
  ultimately have "batch_fields sword = batch_fields (hd (snd ?g))" by (rule bspec)
  then have f: "batch_fields sword = batch_fields (hd [sword, sword])"
    by (simp only: snd_conv)
  show ?thesis using w e pw pe g f by blast
qed

section \<open>The batch export\<close>

lemma data_rows_written:
  assumes "p \<in> set (map (get_category_path out) items)"
  shows "data_rows (write_all (categorize out items) fs) p = length (routed out items p)"
proof -
  have "routed out items p \<noteq> []"
    using assms by (auto simp: routed_def filter_empty_conv)
  then show ?thesis
    by (simp add: data_rows_def written_file file_rows_def)
qed

lemma missing_renders_empty:
  assumes "i < length (batch_fields it)"
    and "batch_fields it ! i \<notin> set (dict_keys (to_dict it))"
  shows "to_row it ! i = []"
proof -
  have "map_of (to_dict it) (batch_fields it ! i) = None"
    using assms(2) by (simp add: dict_keys_def map_of_eq_None_iff)
  then show ?thesis
    using assms(1) by (simp add: to_row_def dict_get_def)
qed

text \<open>
  The batch export of records whose attribute keys all belong to the schema of their class
  raises nothing: each destination file written holds exactly the header of the schema
  followed by one row per record routed to that path, in batch order, whatever the file
  held before; the data rows of the written files add up to the batch size; an attribute
  missing from a record renders as the empty string; and a path to which no record is
  routed keeps what it had.
\<close>

lemma export_items_within_schema:
  assumes "\<forall>it \<in> set items. in_schema it"
  shows "\<exists>fs'. export_items output_dir items fs = (fs', None) \<and>
     (\<forall>p. fs' p =
        (if routed output_dir items p = [] then fs p
         else Some (batch_fields (hd (routed output_dir items p))
                    # map to_row (routed output_dir items p)))) \<and>
     (\<Sum>p \<in> set (map (get_category_path output_dir) items). data_rows fs' p) = length items \<and>
     (\<forall>it \<in> set items. \<forall>i < length (batch_fields it).
        batch_fields it ! i \<notin> set (dict_keys (to_dict it)) \<longrightarrow> to_row it ! i = [])"
proof (intro exI conjI)
  let ?fs' = "write_all (categorize output_dir items) fs"
  show "export_items output_dir items fs = (?fs', None)"
    by (rule export_items_in_schema [OF assms])
  show "\<forall>p. ?fs' p =
        (if routed output_dir items p = [] then fs p
         else Some (batch_fields (hd (routed output_dir items p))
                    # map to_row (routed output_dir items p)))"
    by (simp add: written_file file_rows_def)
  have "(\<Sum>p \<in> set (map (get_category_path output_dir) items). data_rows ?fs' p)
        = (\<Sum>p \<in> set (map (get_category_path output_dir) items).
             length (routed output_dir items p))"
    by (rule sum.cong [OF refl]) (rule data_rows_written)
  then show "(\<Sum>p \<in> set (map (get_category_path output_dir) items). data_rows ?fs' p)
        = length items"
    by (simp only: sum_routed)
  show "\<forall>it \<in> set items. \<forall>i < length (batch_fields it).
        batch_fields it ! i \<notin> set (dict_keys (to_dict it)) \<longrightarrow> to_row it ! i = []"
    using missing_renders_empty by blast
qed

text \<open>
  The export raises \<^verbatim>\<open>ValueError\<close> as soon as one record of the batch has an attribute key
  outside its schema, and an Equipment record routed to any file other than
  \<^verbatim>\<open>equipment/misc.csv\<close> is such a record: it has the \<^verbatim>\<open>Slot\<close> attribute, which
  \<^verbatim>\<open>Equipment.FIELDS\<close> of \<^verbatim>\<open>wiki_scraper.py\<close> lacks.
\<close>

lemma slot_bucket_outside_schema:
  assumes "\<not> isinstance_Weapon it"
    and "get_category_path out it \<noteq> out @ [''equipment'', ''misc.csv'']"
  shows "\<not> in_schema it"
proof
  assume "in_schema it"
  then have "set (dict_keys (attributes it)) \<subseteq> set (FIELDS Scraper_Equipment)"
    using assms(1)
    by (simp add: in_schema_def list_all_iff batch_fields_def subset_iff del: FIELDS.simps)
  moreover have "''Slot'' \<notin> set (FIELDS Scraper_Equipment)" by simp
  ultimately have "''Slot'' \<notin> set (dict_keys (attributes it))" by blast
  then have "map_of (attributes it) ''Slot'' = None"
    by (simp add: dict_keys_def map_of_eq_None_iff)
  then have "get_category_path out it = out @ [''equipment'', ''misc.csv'']"
    using assms(1)
    by (simp add: equipment_path dict_get_def lower_Nil EQUIPMENT_def)
  then show False using assms(2) by simp
qed

lemma batch_fields_sword: "batch_fields sword = FIELDS Scraper_Weapon"
  by (simp add: batch_fields_def isinstance_Weapon_def sword_eq)

lemma cap_to_dict: "to_dict cap = [(''Name'', ''Cap''), (''Slot'', ''Head''), (''AC'', ''5'')]"
  by (simp add: cap_eq to_dict_def)

lemma cap_raises: "dict_to_list (FIELDS Scraper_Equipment) (to_dict cap) = Inl ValueError"
  by (simp add: cap_to_dict dict_to_list_def dict_keys_def)

lemma batch_fields_cap: "batch_fields cap = FIELDS Scraper_Equipment"
  by (simp add: batch_fields_def isinstance_Weapon_def cap_eq)

lemma sword_writes: "dict_to_list (FIELDS Scraper_Weapon) (to_dict sword) = Inr (to_row sword)"
  using in_schema_dict_to_list [OF sword_in_schema] unfolding batch_fields_sword .

lemma categorize_sword_cap_ring:
  "categorize [''output''] [sword, cap, ring] =
     [([''output'', ''weapons'', ''1H_Weapons.csv''], [sword]),
      ([''output'', ''equipment'', ''Head.csv''], [cap]),
      ([''output'', ''equipment'', ''misc.csv''], [ring])]"
  by (simp add: categorize_def categorize_step_def sword_path cap_path ring_path)

lemma export_sword_cap_ring:
  "export_items [''output''] [sword, cap, ring] Map.empty =
     ([[''output'', ''weapons'', ''1H_Weapons.csv''] \<mapsto> [FIELDS Scraper_Weapon, to_row sword],
       [''output'', ''equipment'', ''Head.csv''] \<mapsto> [FIELDS Scraper_Equipment]],
      Some ValueError)"
  unfolding export_items_def categorize_sword_cap_ring
  by (simp add: write_file_def batch_fields_sword batch_fields_cap sword_writes cap_raises
      del: FIELDS.simps)

text \<open>
  C4 does not hold of the code, which is at fault: \<^verbatim>\<open>_get_category_path\<close> routes an
  Equipment record on its \<^verbatim>\<open>Slot\<close> attribute to one of the fifteen slot files of
  \<^verbatim>\<open>ItemCategories.EQUIPMENT\<close>, but \<^verbatim>\<open>Equipment.FIELDS\<close> of \<^verbatim>\<open>wiki_scraper.py\<close> has no
  \<^verbatim>\<open>Slot\<close> field (the list of \<^verbatim>\<open>models.py\<close> has one), so \<^verbatim>\<open>writerow\<close> raises
  \<^verbatim>\<open>ValueError\<close> on every record with that attribute. On the batch sword, cap, ring, the
  cap being the Equipment record of the attributes \<^verbatim>\<open>{"Slot": "Head", "AC": "5"}\<close>: the
  sword's file is written, \<^verbatim>\<open>equipment/Head.csv\<close> is left with its header and no row for
  the cap, the export ends with \<^verbatim>\<open>ValueError\<close>, and \<^verbatim>\<open>equipment/misc.csv\<close> for the ring is
  never written. The written files hold one data row for a batch of three.
\<close>

theorem C4_slot_record_not_exported:
  "cap = \<lparr>name = ''Cap'', attributes = [(''Slot'', ''Head''), (''AC'', ''5'')],
          cls = Scraper_Equipment\<rparr> \<and>
   get_category_path [''output''] cap = [''output'', ''equipment'', ''Head.csv''] \<and>
   ''Slot'' \<notin> set (FIELDS Scraper_Equipment) \<and>
   export_items [''output''] [sword, cap, ring] Map.empty =
     ([[''output'', ''weapons'', ''1H_Weapons.csv''] \<mapsto>
         [FIELDS Scraper_Weapon,
          [''Rusty Sword'', ''1H Slashing'', ''7'', [], [], [], [], [], [], [], [], [],
           [], [], [], []]],
       [''output'', ''equipment'', ''Head.csv''] \<mapsto> [FIELDS Scraper_Equipment]],
      Some ValueError) \<and>
   data_rows (fst (export_items [''output''] [sword, cap, ring] Map.empty))
     [''output'', ''equipment'', ''Head.csv''] = 0 \<and>
   fst (export_items [''output''] [sword, cap, ring] Map.empty)
     [''output'', ''equipment'', ''misc.csv''] = None"
proof -
  have 1: "get_category_path [''output''] cap = [''output'', ''equipment'', ''Head.csv'']"
    using cap_path [of "[''output'']"] by simp
  have 2: "''Slot'' \<notin> set (FIELDS Scraper_Equipment)" by simp
  have 3: "data_rows (fst (export_items [''output''] [sword, cap, ring] Map.empty))
     [''output'', ''equipment'', ''Head.csv''] = 0"
    by (simp add: export_sword_cap_ring data_rows_def del: FIELDS.simps)
  have 4: "fst (export_items [''output''] [sword, cap, ring] Map.empty)
     [''output'', ''equipment'', ''misc.csv''] = None"
    by (simp add: export_sword_cap_ring del: FIELDS.simps)
  show ?thesis
    using cap_eq 1 2 3 4 export_sword_cap_ring unfolding sword_row by blast
qed

section \<open>Schemas of the two writers\<close>

lemma scraper_class_fields:
  "cls it = Scraper_Weapon \<or> cls it = Scraper_Equipment \<Longrightarrow> batch_fields it = FIELDS (cls it)"
  by (auto simp: batch_fields_def isinstance_Weapon_def simp del: FIELDS.simps)

lemma batch_file_of_item:
  assumes all: "\<forall>x \<in> set items. in_schema x" and it: "it \<in> set items"
  shows "fst (export_items out items fs) (get_category_path out it) =
           Some (batch_fields it # map to_row (routed out items (get_category_path out it)))"
proof -
  let ?r = "routed out items (get_category_path out it)"
  have mem: "it \<in> set ?r" using it by (simp add: routed_def)
  then have ne: "?r \<noteq> []" by auto
  then have "hd ?r \<in> set ?r" by simp
  then have hd: "batch_fields (hd ?r) = batch_fields it" by (rule routed_fields)
  have "fst (export_items out items fs) (get_category_path out it) = Some (file_rows ?r)"
    using ne by (simp add: export_items_in_schema [OF all] written_file)
  then show ?thesis by (simp add: file_rows_def hd)
qed

text \<open>
  C7, amended: in one batch export of records of the scraper's own classes, whether or not
  the export raises, every file the run changes is the header \<^verbatim>\<open>FIELDS\<close> of the class of
  the records routed there, followed by rows for the first records routed there, each
  giving, position by position, the value of the field the header names (the empty string
  when the record lacks it); so every schema field keeps its column for the whole run. The
  single-record append primitive takes \<^verbatim>\<open>item.__class__.FIELDS\<close>, which for a record of the
  scraper's classes is the batch writer's schema: given the record alone both write the
  same header, the same row and raise alike, the primitive writing the header when the
  file is absent or empty and appending the row to an existing file otherwise.
\<close>

theorem C7_stable_schema:
  assumes "\<forall>it \<in> set items. cls it = Scraper_Weapon \<or> cls it = Scraper_Equipment"
  shows "(\<forall>p. fst (export_items output_dir items fs) p \<noteq> fs p \<longrightarrow>
            routed output_dir items p \<noteq> [] \<and>
            (\<exists>fieldnames k.
               (\<forall>x \<in> set (routed output_dir items p). FIELDS (cls x) = fieldnames) \<and>
               fst (export_items output_dir items fs) p =
                 Some (fieldnames #
                       map (\<lambda>x. map (\<lambda>key. dict_get (to_dict x) key []) fieldnames)
                         (take k (routed output_dir items p))))) \<and>
         (\<forall>it \<in> set items.
            \<exists>rows err.
              write_file (base_path @ [filename]) [it] fs0 =
                (fs0(base_path @ [filename] \<mapsto> FIELDS (cls it) # rows), err) \<and>
              export_item base_path it filename fs0 =
                (fs0(base_path @ [filename] \<mapsto>
                   (case fs0 (base_path @ [filename]) of
                      None \<Rightarrow> FIELDS (cls it) # rows
                    | Some old \<Rightarrow> if old = [] then FIELDS (cls it) # rows else old @ rows)),
                 err))"
proof (intro conjI allI impI ballI)
  fix p
  assume ch: "fst (export_items output_dir items fs) p \<noteq> fs p"
  let ?r = "routed output_dir items p"
  from export_items_changed [OF ch]
  show ne: "?r \<noteq> []" by blast
  from export_items_changed [OF ch]
  obtain k where k: "fst (export_items output_dir items fs) p =
       Some (batch_fields (hd ?r) #
             map (\<lambda>x. map (\<lambda>key. dict_get (to_dict x) key []) (batch_fields (hd ?r)))
               (take k ?r))"
    by blast
  have hd: "get_category_path output_dir (hd ?r) = p"
    using hd_in_set [OF ne] by (simp add: routed_def)
  have "FIELDS (cls x) = batch_fields (hd ?r)" if x: "x \<in> set ?r" for x
  proof -
    have "x \<in> set items" and "get_category_path output_dir x = p"
      using x by (simp_all add: routed_def)
    then have "batch_fields x = FIELDS (cls x)"
      and "get_category_path output_dir x = get_category_path output_dir (hd ?r)"
      using assms hd by (simp_all add: scraper_class_fields del: FIELDS.simps)
    then show ?thesis using same_path_same_fields [of output_dir x "hd ?r"] by simp
  qed
  then show "\<exists>fieldnames k.
               (\<forall>x \<in> set ?r. FIELDS (cls x) = fieldnames) \<and>
               fst (export_items output_dir items fs) p =
                 Some (fieldnames #
                       map (\<lambda>x. map (\<lambda>key. dict_get (to_dict x) key []) fieldnames)
                         (take k ?r))"
    using k by blast
next
  fix it assume "it \<in> set items"
  then have bf: "batch_fields it = FIELDS (cls it)"
    using assms by (intro scraper_class_fields) blast
  show "\<exists>rows err.
              write_file (base_path @ [filename]) [it] fs0 =
                (fs0(base_path @ [filename] \<mapsto> FIELDS (cls it) # rows), err) \<and>
              export_item base_path it filename fs0 =
                (fs0(base_path @ [filename] \<mapsto>
                   (case fs0 (base_path @ [filename]) of
                      None \<Rightarrow> FIELDS (cls it) # rows
                    | Some old \<Rightarrow> if old = [] then FIELDS (cls it) # rows else old @ rows)),
                 err)"
    using export_item_as_write_file [of base_path filename it fs0] unfolding bf by blast
qed

lemma cls_sword: "cls sword = Scraper_Weapon"
  by (simp add: sword_eq)

lemma cls_ring: "cls ring = Scraper_Equipment"
  by (simp add: ring_eq)

lemma cls_cap: "cls cap = Scraper_Equipment"
  by (simp add: cap_eq)

lemma routed_sword_cap_ring:
  "routed [''output''] [sword, cap, ring] [''output'', ''weapons'', ''1H_Weapons.csv'']
     = [sword]"
  by (simp add: routed_def sword_path cap_path ring_path)

lemma write_file_cap:
  "write_file q [cap] fs = (fs(q \<mapsto> [FIELDS Scraper_Equipment]), Some ValueError)"
  by (simp add: write_file_def batch_fields_cap cap_raises del: FIELDS.simps)

text \<open>
  C7 on the batch sword, cap, ring: the run changes \<^verbatim>\<open>weapons/1H_Weapons.csv\<close>, which starts
  with \<^verbatim>\<open>Weapon.FIELDS\<close> of \<^verbatim>\<open>wiki_scraper.py\<close> followed by rows of the sword under that
  schema; the append primitive given the cap and a fresh file writes \<^verbatim>\<open>Equipment.FIELDS\<close>
  and raises, as the batch writer does.
\<close>

theorem C7_witness:
  "cls sword = Scraper_Weapon \<and> cls cap = Scraper_Equipment \<and> cls ring = Scraper_Equipment \<and>
   fst (export_items [''output''] [sword, cap, ring] Map.empty)
     [''output'', ''weapons'', ''1H_Weapons.csv'']
     \<noteq> Map.empty [''output'', ''weapons'', ''1H_Weapons.csv''] \<and>
   (\<exists>k. fst (export_items [''output''] [sword, cap, ring] Map.empty)
          [''output'', ''weapons'', ''1H_Weapons.csv'']
        = Some (FIELDS Scraper_Weapon #
                map (\<lambda>x. map (\<lambda>key. dict_get (to_dict x) key []) (FIELDS Scraper_Weapon))
                  (take k [sword]))) \<and>
   export_item [''output''] cap ''Head.csv'' Map.empty =
     ([[''output'', ''Head.csv''] \<mapsto> [FIELDS Scraper_Equipment]], Some ValueError)"
proof -
  let ?p = "[''output'', ''weapons'', ''1H_Weapons.csv'']"
  let ?fs' = "fst (export_items [''output''] [sword, cap, ring] Map.empty)"
  have all: "\<forall>it \<in> set [sword, cap, ring]. cls it = Scraper_Weapon \<or> cls it = Scraper_Equipment"
    by (simp add: cls_sword cls_cap cls_ring)
  have ch: "?fs' ?p \<noteq> Map.empty ?p"
    by (simp add: export_sword_cap_ring del: FIELDS.simps)
  have mem: "cap \<in> set [sword, cap, ring]" by simp
  note c = C7_stable_schema [OF all, of "[''output'']" Map.empty "[''output'']" "''Head.csv''"
      Map.empty]
  from c [THEN conjunct1, rule_format, OF ch]
  obtain fieldnames k where
    a: "\<forall>x \<in> set (routed [''output''] [sword, cap, ring] ?p). FIELDS (cls x) = fieldnames"
    and b: "?fs' ?p =
       Some (fieldnames # map (\<lambda>x. map (\<lambda>key. dict_get (to_dict x) key []) fieldnames)
                            (take k (routed [''output''] [sword, cap, ring] ?p)))"
    by blast
  have "FIELDS (cls sword) = fieldnames"
    using a unfolding routed_sword_cap_ring by simp
  then have f: "fieldnames = FIELDS Scraper_Weapon" unfolding cls_sword by simp
  have 1: "\<exists>k. ?fs' ?p
        = Some (FIELDS Scraper_Weapon #
                map (\<lambda>x. map (\<lambda>key. dict_get (to_dict x) key []) (FIELDS Scraper_Weapon))
                  (take k [sword]))"
    using b unfolding f routed_sword_cap_ring by blast
  from c [THEN conjunct2, THEN bspec, OF mem]
  obtain rows err where
    w: "write_file ([''output''] @ [''Head.csv'']) [cap] Map.empty =
          (Map.empty([''output''] @ [''Head.csv''] \<mapsto> FIELDS (cls cap) # rows), err)"
    and e: "export_item [''output''] cap ''Head.csv'' Map.empty =
          (Map.empty([''output''] @ [''Head.csv''] \<mapsto>
             (case Map.empty ([''output''] @ [''Head.csv'']) of
                None \<Rightarrow> FIELDS (cls cap) # rows
              | Some old \<Rightarrow> if old = [] then FIELDS (cls cap) # rows else old @ rows)),
           err)"
    by blast
  have m: "Map.empty([''output''] @ [''Head.csv''] \<mapsto> FIELDS (cls cap) # rows)
          = Map.empty([''output''] @ [''Head.csv''] \<mapsto> [FIELDS Scraper_Equipment])"
    and err: "err = Some ValueError"
    using w unfolding write_file_cap by simp_all
  from m have "FIELDS (cls cap) # rows = [FIELDS Scraper_Equipment]"
    by (rule map_upd_eqD1)
  then have rows: "rows = []" by simp
  have 2: "export_item [''output''] cap ''Head.csv'' Map.empty =
     ([[''output'', ''Head.csv''] \<mapsto> [FIELDS Scraper_Equipment]], Some ValueError)"
    unfolding e rows err cls_cap by simp
  show ?thesis using cls_sword cls_cap cls_ring ch 1 2 by blast
qed

text \<open>
  C7, as stated, fails on its last part: \<^verbatim>\<open>models.py\<close> and \<^verbatim>\<open>wiki_scraper.py\<close> each define a
  class \<^verbatim>\<open>Weapon\<close> with its own \<^verbatim>\<open>FIELDS\<close>. The append primitive given a \<^verbatim>\<open>models.Weapon\<close>
  record writes the header of \<^verbatim>\<open>models.py\<close>, the batch writer given a Weapon record writes
  the header of \<^verbatim>\<open>wiki_scraper.py\<close>, and the two lists differ: column 4 is \<^verbatim>\<open>Stats\<close> in one
  and \<^verbatim>\<open>Classes\<close> in the other.
\<close>

theorem C7_counterexample:
  "archetype_of Models_Weapon = archetype_of Scraper_Weapon \<and>
   map_option hd
     (fst (export_item [''output'']
             \<lparr>name = ''Rusty Sword'', attributes = [(''Damage'', ''7'')], cls = Models_Weapon\<rparr>
             ''sword.csv'' Map.empty) [''output'', ''sword.csv''])
   = Some (FIELDS Models_Weapon) \<and>
   map_option hd
     (fst (export_items [''output'']
             [\<lparr>name = ''Rusty Sword'', attributes = [(''Damage'', ''7'')], cls = Scraper_Weapon\<rparr>]
             Map.empty) [''output'', ''weapons'', ''misc.csv''])
   = Some (FIELDS Scraper_Weapon) \<and>
   FIELDS Models_Weapon \<noteq> FIELDS Scraper_Weapon \<and>
   FIELDS Models_Weapon ! 4 = ''Stats'' \<and> FIELDS Scraper_Weapon ! 4 = ''Classes''"
proof -
  let ?m = "\<lparr>name = ''Rusty Sword'', attributes = [(''Damage'', ''7'')], cls = Models_Weapon\<rparr>"
  let ?s = "\<lparr>name = ''Rusty Sword'', attributes = [(''Damage'', ''7'')], cls = Scraper_Weapon\<rparr>"
  have 1: "map_option hd (fst (export_item [''output''] ?m ''sword.csv'' Map.empty)
             [''output'', ''sword.csv'']) = Some (FIELDS Models_Weapon)"
    by (simp add: export_item_def Let_def dict_to_list_def to_dict_def dict_keys_def
        split: sum.split)
  have p: "get_category_path [''output''] ?s = [''output'', ''weapons'', ''misc.csv'']"
    by (simp add: get_category_path_def isinstance_Weapon_def dict_get_def lower_Nil
        WEAPONS_def str_in_def)
  have s: "in_schema ?s"
    by (simp add: in_schema_def batch_fields_def isinstance_Weapon_def dict_keys_def)
  have "\<forall>x \<in> set [?s]. in_schema x" using s by simp
  then have "fst (export_items [''output''] [?s] Map.empty) (get_category_path [''output''] ?s)
      = Some (batch_fields ?s # map to_row (routed [''output''] [?s] (get_category_path [''output''] ?s)))"
    by (rule batch_file_of_item) simp
  then have 2: "map_option hd (fst (export_items [''output''] [?s] Map.empty)
             [''output'', ''weapons'', ''misc.csv'']) = Some (FIELDS Scraper_Weapon)"
    unfolding p by (simp add: batch_fields_def isinstance_Weapon_def del: FIELDS.simps)
  have 3: "FIELDS Models_Weapon \<noteq> FIELDS Scraper_Weapon" by simp
  have 4: "FIELDS Models_Weapon ! 4 = ''Stats''" "FIELDS Scraper_Weapon ! 4 = ''Classes''"
    by simp_all
  show ?thesis using 1 2 3 4 by simp
qed

section \<open>The paginator\<close>

lemma scan_items_appends:
  "\<exists>added. fst (scan_items base_url items (links, found, lst)) = links @ added \<and>
     fst (snd (scan_items base_url items (links, found, lst))) = (found \<or> added \<noteq> [])"
proof (induction items arbitrary: links found lst)
  case Nil
  show ?case by simp
next
  case (Cons a rest)
  show ?case
  proof (cases "\<not> list_ex (\<lambda>x. str_in x (href a)) excluded_markers \<and> startswith (href a) ''/''
                 \<and> base_url @ href a \<notin> set links")
    case True
    obtain added where
      "fst (scan_items base_url rest (links @ [base_url @ href a], True, Some (anchor_text a)))
         = (links @ [base_url @ href a]) @ added"
      using Cons.IH by blast
    then have "fst (scan_items base_url (a # rest) (links, found, lst))
         = links @ (base_url @ href a) # added"
      using True by (simp add: Let_def)
    moreover have "fst (snd (scan_items base_url (a # rest) (links, found, lst)))"
      using True Cons.IH [of "links @ [base_url @ href a]" True "Some (anchor_text a)"]
      by (auto simp: Let_def)
    ultimately show ?thesis by blast
  next
    case False
    then have "scan_items base_url (a # rest) (links, found, lst)
                 = scan_items base_url rest (links, found, lst)"
      by (auto simp: Let_def)
    then show ?thesis using Cons.IH [of links found lst] by simp
  qed
qed

lemma found_iff_new_links:
  "fst (snd (scan_items base_url items (links, False, None)))
     = (new_links base_url items links \<noteq> [])"
proof -
  obtain added where "fst (scan_items base_url items (links, False, None)) = links @ added"
    and "fst (snd (scan_items base_url items (links, False, None))) = (False \<or> added \<noteq> [])"
    using scan_items_appends by blast
  then show ?thesis by (simp add: new_links_def)
qed

lemma no_new_links_same:
  assumes "new_links base_url items links = []"
  shows "fst (scan_items base_url items (links, False, None)) = links"
proof -
  obtain added where a: "fst (scan_items base_url items (links, False, None)) = links @ added"
    using scan_items_appends by blast
  then have "added = []" using assms by (simp add: new_links_def)
  then show ?thesis using a by simp
qed

lemma page_step_ends:
  assumes "fetch_ends session_get base_url category_url (n, links, last_item)"
  shows "page_step session_get base_url category_url (n, links, last_item) = Inl (links, Suc n)"
proof (cases "session_get n (page_url category_url last_item)")
  case Raises
  then show ?thesis using assms by (simp add: fetch_ends_def)
next
  case (Returns response)
  show ?thesis
  proof (cases "status_code response \<noteq> 200")
    case True
    then show ?thesis by (simp add: page_step_def Returns)
  next
    case ok: False
    show ?thesis
    proof (cases "content_links (parsed response)")
      case None
      then show ?thesis using ok by (simp add: page_step_def Returns)
    next
      case (Some items)
      then have nl: "new_links base_url items links = []"
        using assms ok by (simp add: fetch_ends_def Returns)
      obtain links' found lst where
        sc: "scan_items base_url items (links, False, None) = (links', found, lst)"
        by (cases "scan_items base_url items (links, False, None)") auto
      have "\<not> found" using found_iff_new_links [of base_url items links] nl sc by simp
      moreover have "links' = links" using no_new_links_same [OF nl] sc by simp
      ultimately show ?thesis using ok by (simp add: page_step_def Returns Some sc)
    qed
  qed
qed






lemmas pg_eval = page_step_def page_url_def truthy_def site_def listing_def
  excluded_markers_def str_in_def startswith_def sublist_Cons_right arms_url_def

lemma sword_site_round1:
  "page_step (site sword_site) wiki arms_url (0, [], None)
     = Inr (Suc 0, [wiki @ ''/Rusty_Sword''], Some ''Rusty Sword'')"
  by (simp add: pg_eval sword_site_def)

lemma sword_site_ends:
  "fetch_ends (site sword_site) wiki arms_url
     (Suc 0, [wiki @ ''/Rusty_Sword''], Some ''Rusty Sword'')"
  by (simp add: fetch_ends_def pg_eval sword_site_def)





lemma kept_Nil: "kept base_url []"
  by (simp add: kept_def)

lemma kept_snoc:
  "kept base_url links \<Longrightarrow> \<not> list_ex (\<lambda>x. str_in x h) excluded_markers \<Longrightarrow>
   kept base_url (links @ [base_url @ h])"
  unfolding kept_def by auto

lemma scan_items_kept:
  "kept base_url links \<Longrightarrow> kept base_url (fst (scan_items base_url items (links, found, lst)))"
proof (induction items arbitrary: links found lst)
  case Nil
  then show ?case by simp
next
  case (Cons a rest)
  show ?case
  proof (cases "\<not> list_ex (\<lambda>x. str_in x (href a)) excluded_markers \<and> startswith (href a) ''/''
                 \<and> base_url @ href a \<notin> set links")
    case True
    then have "kept base_url (links @ [base_url @ href a])"
      using Cons.prems by (intro kept_snoc) simp_all
    then have "kept base_url (fst (scan_items base_url rest
                 (links @ [base_url @ href a], True, Some (anchor_text a))))"
      by (rule Cons.IH)
    moreover have "scan_items base_url (a # rest) (links, found, lst)
        = scan_items base_url rest (links @ [base_url @ href a], True, Some (anchor_text a))"
      using True by (simp add: Let_def)
    ultimately show ?thesis by simp
  next
    case False
    then have "scan_items base_url (a # rest) (links, found, lst)
                 = scan_items base_url rest (links, found, lst)"
      by (auto simp: Let_def)
    then show ?thesis using Cons.IH [OF Cons.prems] by simp
  qed
qed

lemma page_step_kept:
  assumes "kept base_url links"
  shows "case page_step session_get base_url category_url (n, links, last_item) of
           Inl r \<Rightarrow> kept base_url (fst r)
         | Inr st' \<Rightarrow> kept base_url (fst (snd st'))"
proof (cases "session_get n (page_url category_url last_item)")
  case Raises
  then show ?thesis by (simp add: page_step_def kept_Nil)
next
  case (Returns response)
  show ?thesis
  proof (cases "status_code response \<noteq> 200")
    case True
    then show ?thesis using assms by (simp add: page_step_def Returns)
  next
    case ok: False
    show ?thesis
    proof (cases "content_links (parsed response)")
      case None
      then show ?thesis using ok assms by (simp add: page_step_def Returns)
    next
      case (Some items)
      obtain links' found lst where
        sc: "scan_items base_url items (links, False, None) = (links', found, lst)"
        by (cases "scan_items base_url items (links, False, None)") auto
      have "kept base_url links'"
        using scan_items_kept [OF assms, of items False None] sc by simp
      then show ?thesis using ok by (simp add: page_step_def Returns Some sc)
    qed
  qed
qed

lemma loop_body_kept:
  assumes IH: "\<And>sg b c st r. f sg b c st = Some r \<Longrightarrow>
                 kept b (fst (snd st)) \<longrightarrow> kept b (fst r)"
    and body: "(case page_step sg b c st of Inl r \<Rightarrow> Some r | Inr st' \<Rightarrow> f sg b c st') = Some r"
  shows "kept b (fst (snd st)) \<longrightarrow> kept b (fst r)"
proof
  assume k: "kept b (fst (snd st))"
  obtain n links last_item where st: "st = (n, links, last_item)" by (cases st)
  have k': "kept b links" using k st by simp
  show "kept b (fst r)"
  proof (cases "page_step sg b c st")
    case (Inl r')
    then have "r' = r" using body by simp
    then show ?thesis using page_step_kept [OF k', of sg c n last_item] Inl st by simp
  next
    case (Inr st')
    then have "f sg b c st' = Some r" using body by simp
    then have "kept b (fst (snd st')) \<longrightarrow> kept b (fst r)" by (rule IH)
    moreover have "kept b (fst (snd st'))"
      using page_step_kept [OF k', of sg c n last_item] Inr st by simp
    ultimately show ?thesis by blast
  qed
qed

lemma paginate_loop_kept:
  assumes "paginate_loop session_get base_url category_url st = Some r"
  shows "kept base_url (fst (snd st)) \<longrightarrow> kept base_url (fst r)"
  using assms
  by (rule paginate_loop.raw_induct
      [where P = "\<lambda>sg b c st r. kept b (fst (snd st)) \<longrightarrow> kept b (fst r)", rotated])
     (rule loop_body_kept)

text \<open>
  C8, amended: during link extraction every hyperlink whose target contains one of the
  markers \<^verbatim>\<open>/Category:\<close>, \<^verbatim>\<open>Special:\<close>, \<^verbatim>\<open>File:\<close>, \<^verbatim>\<open>Discussion:\<close>, \<^verbatim>\<open>Help:\<close>, \<^verbatim>\<open>User:\<close>,
  \<^verbatim>\<open>Template:\<close>, \<^verbatim>\<open>Project:\<close>, at any position, is discarded: its URL is never in the
  paginator's result. The category marker of the code starts with a slash.
\<close>

theorem C8_marked_links_discarded:
  assumes "extract_category_items session_get base_url category_url n = Some (urls, m)"
    and "x \<in> set [''/Category:'', ''Special:'', ''File:'', ''Discussion:'',
                   ''Help:'', ''User:'', ''Template:'', ''Project:'']"
    and "h = pre @ x @ suf"
  shows "base_url @ h \<notin> set urls"
proof
  assume "base_url @ h \<in> set urls"
  moreover have "kept base_url urls"
    using paginate_loop_kept [of session_get base_url category_url "(n, [], None)" "(urls, m)"]
      assms(1)
    by (simp add: extract_category_items_def kept_Nil)
  ultimately obtain h' where "base_url @ h = base_url @ h'"
    and no: "\<not> list_ex (\<lambda>x. str_in x h') excluded_markers"
    unfolding kept_def by blast
  then have "h' = h" by simp
  moreover have "str_in x h"
    unfolding str_in_def assms(3) sublist_def by blast
  moreover have "x \<in> set excluded_markers"
    using assms(2) by (simp add: excluded_markers_def)
  ultimately show False using no by (auto simp: list_ex_iff)
qed

lemma sword_site_extract:
  "extract_category_items (site sword_site) wiki arms_url 0 = Some ([wiki @ ''/Rusty_Sword''], 2)"
proof -
  have "page_step (site sword_site) wiki arms_url
          (Suc 0, [wiki @ ''/Rusty_Sword''], Some ''Rusty Sword'')
        = Inl ([wiki @ ''/Rusty_Sword''], Suc (Suc 0))"
    using sword_site_ends by (rule page_step_ends)
  then show ?thesis
    unfolding extract_category_items_def
    by (subst paginate_loop.simps, simp add: sword_site_round1)
       (subst paginate_loop.simps, simp)
qed

text \<open>
  C8 on a listing with an item link and the link \<^verbatim>\<open>/Category:Legs\<close>: the paginator returns
  the item's URL alone.
\<close>

theorem C8_witness:
  "extract_category_items (site sword_site) wiki arms_url 0 = Some ([wiki @ ''/Rusty_Sword''], 2) \<and>
   ''/Category:Legs'' = [] @ ''/Category:'' @ ''Legs'' \<and>
   wiki @ ''/Category:Legs'' \<notin> set [wiki @ ''/Rusty_Sword'']"
proof -
  have x: "''/Category:'' \<in> set [''/Category:'', ''Special:'', ''File:'', ''Discussion:'',
                   ''Help:'', ''User:'', ''Template:'', ''Project:'']"
    by simp
  have h: "''/Category:Legs'' = [] @ ''/Category:'' @ ''Legs''" by simp
  show ?thesis
    using C8_marked_links_discarded [OF sword_site_extract x h] sword_site_extract h by blast
qed

lemma subcategory_round1:
  "page_step (site subcategory_site) wiki arms_url (0, [], None)
     = Inr (Suc 0, [wiki @ ''/Sub_Category:Arms''], Some ''Arms'')"
  by (simp add: pg_eval subcategory_site_def)

lemma subcategory_round2:
  "page_step (site subcategory_site) wiki arms_url
     (Suc 0, [wiki @ ''/Sub_Category:Arms''], Some ''Arms'')
     = Inl ([wiki @ ''/Sub_Category:Arms''], Suc (Suc 0))"
  by (simp add: pg_eval subcategory_site_def)

text \<open>
  C8, as stated, fails: the target \<^verbatim>\<open>/Sub_Category:Arms\<close> contains \<^verbatim>\<open>Category:\<close> (not after a
  slash), and the paginator returns its URL.
\<close>

theorem C8_counterexample:
  "str_in ''Category:'' ''/Sub_Category:Arms'' \<and>
   extract_category_items (site subcategory_site) wiki arms_url 0
     = Some ([wiki @ ''/Sub_Category:Arms''], 2)"
proof -
  have "str_in ''Category:'' ''/Sub_Category:Arms''"
    by (simp add: str_in_def sublist_Cons_right)
  moreover have "extract_category_items (site subcategory_site) wiki arms_url 0
     = Some ([wiki @ ''/Sub_Category:Arms''], 2)"
    unfolding extract_category_items_def
    by (subst paginate_loop.simps, simp add: subcategory_round1)
       (subst paginate_loop.simps, simp add: subcategory_round2)
  ultimately show ?thesis by blast
qed

section \<open>Detail pages and the scrape loop\<close>

lemma split_acc_nonempty: "split_acc sep cur s \<noteq> []"
  by (induction s arbitrary: cur) auto

lemma last_split_acc:
  "last (split_acc sep cur s) = [] \<longleftrightarrow> (if s = [] then cur = [] else last s = sep)"
proof (induction s arbitrary: cur)
  case Nil
  show ?case by simp
next
  case (Cons c cs)
  show ?case
  proof (cases "c = sep")
    case True
    then have "last (split_acc sep cur (c # cs)) = last (split_acc sep [] cs)"
      by (simp add: split_acc_nonempty)
    then show ?thesis using Cons.IH [of "[]"] True by auto
  next
    case False
    then have "last (split_acc sep cur (c # cs)) = last (split_acc sep (cur @ [c]) cs)"
      by simp
    then show ?thesis using Cons.IH [of "cur @ [c]"] False by auto
  qed
qed

lemma last_split_empty: "last (split s sep) = [] \<longleftrightarrow> s = [] \<or> last s = sep"
  by (auto simp: split_def last_split_acc)

lemma replace_char_empty: "replace_char s a b = [] \<longleftrightarrow> s = []"
  by (simp add: replace_char_def)

lemma scrape_item_page_name:
  assumes "scrape_item_page session_get n url = Inr (Some it)"
  shows "name it = replace_char (last (split url CHR ''/'')) CHR ''_'' CHR '' ''"
  using assms
  by (auto simp: scrape_item_page_def scrape_item_page_body_def classify_def Let_def
      split: fetch.splits option.splits if_splits sum.splits)

text \<open>
  C9, amended: every record built from a detail page has as its name the last
  \<^verbatim>\<open>/\<close>-separated segment of the page's URL with underscores replaced by spaces; the name is
  non-empty exactly when the URL is non-empty and does not end in \<^verbatim>\<open>/\<close>, and for a URL of
  the paginator (the base URL followed by a link target that starts with \<^verbatim>\<open>/\<close>) exactly when
  the link target does not end in \<^verbatim>\<open>/\<close>.
\<close>

theorem C9_record_name:
  assumes "scrape_item_page session_get n url = Inr (Some it)"
  shows "name it = replace_char (last (split url CHR ''/'')) CHR ''_'' CHR '' '' \<and>
         (name it \<noteq> [] \<longleftrightarrow> url \<noteq> [] \<and> last url \<noteq> CHR ''/'') \<and>
         (\<forall>h. url = base_url @ h \<and> startswith h ''/'' \<longrightarrow>
            (name it \<noteq> [] \<longleftrightarrow> last h \<noteq> CHR ''/''))"
proof (intro conjI allI impI)
  show nm: "name it = replace_char (last (split url CHR ''/'')) CHR ''_'' CHR '' ''"
    using assms by (rule scrape_item_page_name)
  show ne: "name it \<noteq> [] \<longleftrightarrow> url \<noteq> [] \<and> last url \<noteq> CHR ''/''"
    unfolding nm replace_char_empty last_split_empty by blast
  fix h assume "url = base_url @ h \<and> startswith h ''/''"
  then have url: "url = base_url @ h" and "h \<noteq> []"
    by (auto simp: startswith_def)
  then have "url \<noteq> []" and "last url = last h" by simp_all
  then show "name it \<noteq> [] \<longleftrightarrow> last h \<noteq> CHR ''/''"
    using ne by simp
qed

lemma strip_plain:
  "strip ''Type'' = ''Type''" "strip ''1H Slashing'' = ''1H Slashing''"
  "strip ''Damage'' = ''Damage''" "strip ''7'' = ''7''"
  "strip ''AC'' = ''AC''" "strip ''1'' = ''1''"
  by (simp_all add: strip_def is_space_def)

lemma parse_sword_page:
  "parse_item_data sword_page = Some [(''Type'', ''1H Slashing''), (''Damage'', ''7'')]"
  by (simp add: parse_item_data_def sword_page_def strip_plain)

lemma parse_ring_page: "parse_item_data ring_page = Some [(''AC'', ''1'')]"
  by (simp add: parse_item_data_def ring_page_def strip_plain)

lemma split_sword_url: "last (split (wiki @ ''/Rusty_Sword'') CHR ''/'') = ''Rusty_Sword''"
  by (simp add: split_def wiki_def)

lemma split_ring_url: "last (split (wiki @ ''/Ring'') CHR ''/'') = ''Ring''"
  by (simp add: split_def wiki_def)

lemma split_main_url: "last (split (wiki @ ''/'') CHR ''/'') = []"
  by (simp add: last_split_empty)

lemma scrape_sword:
  "scrape_item_page (site [(wiki @ ''/Rusty_Sword'', sword_page)]) 0 (wiki @ ''/Rusty_Sword'')
     = Inr (Some sword)"
  by (simp add: scrape_item_page_def scrape_item_page_body_def site_def parse_sword_page
      split_sword_url replace_char_def sword_def)

text \<open>
  C9 on the sword's page: the URL ends in \<^verbatim>\<open>Rusty_Sword\<close> and the record's name is
  \<^verbatim>\<open>Rusty Sword\<close>.
\<close>

theorem C9_witness:
  "scrape_item_page (site [(wiki @ ''/Rusty_Sword'', sword_page)]) 0 (wiki @ ''/Rusty_Sword'')
     = Inr (Some sword) \<and>
   name sword = ''Rusty Sword'' \<and> wiki @ ''/Rusty_Sword'' \<noteq> [] \<and>
   last (wiki @ ''/Rusty_Sword'') \<noteq> CHR ''/''"
proof -
  have "name sword = ''Rusty Sword''" by (simp add: sword_eq)
  moreover have "last (wiki @ ''/Rusty_Sword'') \<noteq> CHR ''/''" by simp
  ultimately show ?thesis
    using C9_record_name [OF scrape_sword, of wiki] scrape_sword by simp
qed

lemma main_page_round1:
  "page_step (site main_page_site) wiki arms_url (0, [], None)
     = Inr (Suc 0, [wiki @ ''/''], Some ''Main Page'')"
  by (simp add: pg_eval main_page_site_def)

lemma main_page_round2:
  "page_step (site main_page_site) wiki arms_url (Suc 0, [wiki @ ''/''], Some ''Main Page'')
     = Inl ([wiki @ ''/''], Suc (Suc 0))"
  by (simp add: pg_eval main_page_site_def wiki_def)

text \<open>
  C9, as stated, fails: a listing that links to \<^verbatim>\<open>/\<close> makes the paginator return the URL
  of the site's root, and when that page carries an infobox the record built from it has
  the empty name.
\<close>

theorem C9_counterexample:
  "extract_category_items (site main_page_site) wiki arms_url 0 = Some ([wiki @ ''/''], 2) \<and>
   scrape_item_page (site main_page_site) 2 (wiki @ ''/'')
     = Inr (Some \<lparr>name = [], attributes = [(''Type'', ''1H Slashing''), (''Damage'', ''7'')],
                  cls = Scraper_Weapon\<rparr>)"
proof -
  have "extract_category_items (site main_page_site) wiki arms_url 0 = Some ([wiki @ ''/''], 2)"
    unfolding extract_category_items_def
    by (subst paginate_loop.simps, simp add: main_page_round1)
       (subst paginate_loop.simps, simp add: main_page_round2)
  moreover have "scrape_item_page (site main_page_site) 2 (wiki @ ''/'')
     = Inr (Some \<lparr>name = [], attributes = [(''Type'', ''1H Slashing''), (''Damage'', ''7'')],
                  cls = Scraper_Weapon\<rparr>)"
    by (simp add: scrape_item_page_def scrape_item_page_body_def site_def main_page_site_def
        arms_url_def parse_sword_page split_main_url replace_char_def classify_def
        determine_1H_Slashing)
  ultimately show ?thesis by blast
qed

lemma scrape_item_page_never_raises: "scrape_item_page session_get n url \<noteq> Inl e"
  by (simp add: scrape_item_page_def split: sum.splits)

lemma scrape_urls_failed_items:
  "snd (snd (scrape_urls session_get urls (n, items, failed_items))) = failed_items"
proof (induction urls arbitrary: n items)
  case Nil
  show ?case by simp
next
  case (Cons url urls)
  show ?case
  proof (cases "scrape_item_page session_get n url")
    case (Inl e)
    then show ?thesis using scrape_item_page_never_raises by blast
  next
    case (Inr r)
    then show ?thesis using Cons.IH by (cases r) simp_all
  qed
qed

lemma no_Category_in:
  "\<not> str_in ''Category:'' (wiki @ ''/Rusty_Sword'')"
  "\<not> str_in ''Category:'' (wiki @ ''/Broken'')"
  "\<not> str_in ''Category:'' (wiki @ ''/Ring'')"
  by (simp_all add: str_in_def wiki_def sublist_Cons_right)

lemma parse_no_infobox:
  "parse_item_data \<lparr>content_links = None, infobox_rows = None\<rparr> = None"
  by (simp add: parse_item_data_def)

lemma flaky_pages:
  "scrape_item_page flaky 0 (wiki @ ''/Rusty_Sword'') = Inr None"
  "scrape_item_page flaky (Suc 0) (wiki @ ''/Broken'') = Inr None"
  "scrape_item_page flaky (Suc (Suc 0)) (wiki @ ''/Ring'') = Inr (Some ring)"
  by (simp_all add: scrape_item_page_def scrape_item_page_body_def flaky_def site_def
      parse_no_infobox parse_ring_page split_ring_url replace_char_def ring_def)

lemma ring_attributes: "attributes ring \<noteq> []"
  by (simp add: ring_eq)

text \<open>
  C2 fails on the code. In a batch of three URLs the request for the first raises and the
  second gets status 404: \<^verbatim>\<open>scrape_item_page\<close> turns both into \<^verbatim>\<open>None\<close>, the batch goes on
  and the third page gives its record, but \<open>failed_items\<close> stays empty. For every transport
  and batch, the loop returns \<open>failed_items\<close> as it received it: the handler that appends
  the URL is never reached, since \<^verbatim>\<open>scrape_item_page\<close> catches every exception itself.
\<close>

theorem C2_failures_not_recorded:
  "flaky 0 (wiki @ ''/Rusty_Sword'') = Raises \<and>
   scrape_item_page_body flaky 0 (wiki @ ''/Rusty_Sword'') = Inl RequestException \<and>
   scrape_urls flaky [wiki @ ''/Rusty_Sword'', wiki @ ''/Broken'', wiki @ ''/Ring''] (0, [], [])
     = (3, [ring], []) \<and>
   snd (snd (scrape_urls session_get urls (n, items, failed_items))) = failed_items"
proof -
  have 1: "flaky 0 (wiki @ ''/Rusty_Sword'') = Raises" by (simp add: flaky_def)
  then have 2: "scrape_item_page_body flaky 0 (wiki @ ''/Rusty_Sword'') = Inl RequestException"
    by (simp add: scrape_item_page_body_def)
  have 3: "scrape_urls flaky [wiki @ ''/Rusty_Sword'', wiki @ ''/Broken'', wiki @ ''/Ring'']
             (0, [], []) = (3, [ring], [])"
    by (simp add: no_Category_in flaky_pages ring_attributes numeral_3_eq_3)
  show ?thesis using 1 2 3 scrape_urls_failed_items by blast
qed

end
